theory Spec2Isabelle
  imports Main "HOL-Library.Multiset"
begin

section \<open>Data model (src/types/torrent.ts, src/lib/repair.ts)\<close>

text \<open>
  The interfaces \<^verbatim>\<open>TorrentFile\<close>, \<^verbatim>\<open>Torrent\<close> and \<^verbatim>\<open>DetailedTorrent\<close>. The TypeScript
  field names \<^verbatim>\<open>name\<close>, \<^verbatim>\<open>size\<close>, \<^verbatim>\<open>id\<close>, \<^verbatim>\<open>status\<close> occur in several interfaces
  (and \<^verbatim>\<open>size\<close>, \<^verbatim>\<open>id\<close> are constants of HOL), so the fields of a file carry the prefix
  \<open>file_\<close> and those of a torrent the prefix \<open>torrent_\<close>. \<^verbatim>\<open>DetailedTorrent extends Torrent\<close>
  is a record extension, so a detailed torrent can be passed where a torrent is expected,
  as the code does.
\<close>

record TorrentFile =
  file_name :: string
  file_size :: string
  file_status :: string
  file_id :: string

record Torrent =
  torrent_name :: string
  torrent_hash :: string
  torrent_size :: string
  torrent_date :: string

record DetailedTorrent = Torrent +
  files :: "TorrentFile list"

datatype repair_status = repaired | failed | error

record RepairResult =
  torrentHash :: string
  fileId :: string
  fileName :: string
  status :: repair_status
  message :: string

text \<open>
  Every value thrown in the modelled code is a JavaScript \<^verbatim>\<open>Error\<close> (the code throws
  \<^verbatim>\<open>new Error(...)\<close>; \<^verbatim>\<open>fetch\<close> and \<^verbatim>\<open>new URL\<close> reject with a \<^verbatim>\<open>TypeError\<close>), so an
  exception is its message, and \<^verbatim>\<open>error instanceof Error ? error.message : String(error)\<close>
  reads it.
\<close>

datatype js_error = Error (errorMessage: string)

section \<open>The managed service and asynchronous tasks\<close>

text \<open>
  The four HTTP requests of src/lib/zurg.ts, named by what the URL is built from: the
  manage page of an instance, the detail page of a torrent, and the delete and restore
  actions of a file.
\<close>

datatype request =
  ListReq string
| DetailReq string string
| DeleteReq string string string
| RestoreReq string string string

text \<open>
  What \<^verbatim>\<open>await fetch(new URL(...))\<close> gives: a rejection (invalid URL, network failure) with
  its message, or a response with \<^verbatim>\<open>ok\<close>, \<^verbatim>\<open>statusText\<close> and the body text.
\<close>

datatype fetch_result = Rejected string | Response bool string string

datatype event = Fetched request fetch_result | Slept nat

type_synonym trace = "event list"

text \<open>
  The managed service is an opaque actor: its answer to a request may depend on everything
  that happened before.
\<close>

type_synonym service = "trace \<Rightarrow> request \<Rightarrow> fetch_result"

text \<open>
  An \<^verbatim>\<open>async\<close> function is a tree of its suspension points: it has returned, or it awaits
  a fetch and continues with the result, or it awaits a timer
  (\<^verbatim>\<open>await new Promise((resolve) => setTimeout(resolve, ms))\<close>) and continues.
  Log output is not part of the model.
\<close>

datatype 'a task =
  Return 'a
| Fetch request "fetch_result \<Rightarrow> 'a task"
| Sleep nat "'a task"

primrec bind :: "'a task \<Rightarrow> ('a \<Rightarrow> 'b task) \<Rightarrow> 'b task" where
  "bind (Return v) f = f v"
| "bind (Fetch q k) f = Fetch q (\<lambda>r. bind (k r) f)"
| "bind (Sleep ms t) f = Sleep ms (bind t f)"

text \<open>
  Awaiting one task to completion against the service, after the history \<open>tr\<close>: the value
  it returns and the events of this run, in order.
\<close>

primrec run :: "service \<Rightarrow> 'a task \<Rightarrow> trace \<Rightarrow> 'a \<times> trace" where
  "run svc (Return v) tr = (v, [])"
| "run svc (Fetch q k) tr =
     (let r = svc tr q; (v, es) = run svc (k r) (tr @ [Fetched q r]) in (v, Fetched q r # es))"
| "run svc (Sleep ms t) tr =
     (let (v, es) = run svc t (tr @ [Slept ms]) in (v, Slept ms # es))"

section \<open>Strings\<close>

text \<open>
  \<^verbatim>\<open>String.prototype.toLowerCase\<close> on the letters A to Z. No character outside A to Z
  lower-cases to one of the letters of \<^verbatim>\<open>"available"\<close>, so for the comparisons of the code
  this is the whole function.
\<close>

definition lowerChar :: "char \<Rightarrow> char" where
  "lowerChar c =
     (case map_of (zip ''ABCDEFGHIJKLMNOPQRSTUVWXYZ'' ''abcdefghijklmnopqrstuvwxyz'') c of
        Some l \<Rightarrow> l
      | None \<Rightarrow> c)"

definition toLowerCase :: "string \<Rightarrow> string" where
  "toLowerCase s = map lowerChar s"

text \<open>
  Template-literal rendering \<^verbatim>\<open>`${n}`\<close> of a count. The numbers of the code that are
  modelled (\<^verbatim>\<open>maxRetries\<close>, \<^verbatim>\<open>retryDelay\<close>, \<^verbatim>\<open>concurrencyLimit\<close>, loop counters) are
  counts, of type \<open>nat\<close>.
\<close>

definition digitChar :: "nat \<Rightarrow> char" where
  "digitChar d = ''0123456789'' ! d"

function natToString :: "nat \<Rightarrow> string" where
  "natToString n = (if n < 10 then [digitChar n] else natToString (n div 10) @ [digitChar (n mod 10)])"
  by pat_completeness auto
termination
  by (relation "measure id") auto

declare natToString.simps [simp del]

section \<open>The service client (src/lib/zurg.ts)\<close>

definition getTorrentDetailsPageHtml :: "string \<Rightarrow> string \<Rightarrow> (js_error + string) task" where
  "getTorrentDetailsPageHtml hash baseUrl =
     Fetch (DetailReq hash baseUrl) (\<lambda>response.
       case response of
         Rejected m \<Rightarrow> Return (Inl (Error m))
       | Response ok statusText body \<Rightarrow>
           if \<not> ok then
             Return (Inl (Error (''Failed to fetch torrent details page for hash '' @ hash
               @ '' from '' @ baseUrl @ '': '' @ statusText)))
           else Return (Inr body))"

text \<open>
  \<^verbatim>\<open>parseTorrentFiles\<close> reads the detail page with the cheerio library; it is a parameter
  here. \<^verbatim>\<open>{ ...torrent, files }\<close> copies the torrent's fields and sets \<^verbatim>\<open>files\<close>.
\<close>

definition getDetailedTorrent ::
  "(string \<Rightarrow> TorrentFile list) \<Rightarrow> 'a Torrent_scheme \<Rightarrow> string \<Rightarrow> (js_error + DetailedTorrent) task"
where
  "getDetailedTorrent parseTorrentFiles torrent baseUrl =
     bind (getTorrentDetailsPageHtml (torrent_hash torrent) baseUrl) (\<lambda>detailHtml.
       case detailHtml of
         Inl e \<Rightarrow> Return (Inl e)
       | Inr html \<Rightarrow>
           Return (Inr \<lparr>torrent_name = torrent_name torrent, torrent_hash = torrent_hash torrent,
                        torrent_size = torrent_size torrent, torrent_date = torrent_date torrent,
                        files = parseTorrentFiles html\<rparr>))"

definition deleteFile :: "string \<Rightarrow> string \<Rightarrow> string \<Rightarrow> (js_error + unit) task" where
  "deleteFile torrentHash' fileId' baseUrl =
     Fetch (DeleteReq torrentHash' fileId' baseUrl) (\<lambda>response.
       case response of
         Rejected m \<Rightarrow> Return (Inl (Error m))
       | Response ok statusText body \<Rightarrow>
           if \<not> ok then
             Return (Inl (Error (''Failed to delete file '' @ fileId' @ '' for torrent ''
               @ torrentHash' @ '' from '' @ baseUrl @ '': '' @ statusText)))
           else Return (Inr ()))"

definition restoreFile :: "string \<Rightarrow> string \<Rightarrow> string \<Rightarrow> (js_error + unit) task" where
  "restoreFile torrentHash' fileId' baseUrl =
     Fetch (RestoreReq torrentHash' fileId' baseUrl) (\<lambda>response.
       case response of
         Rejected m \<Rightarrow> Return (Inl (Error m))
       | Response ok statusText body \<Rightarrow>
           if \<not> ok then
             Return (Inl (Error (''Failed to restore file '' @ fileId' @ '' for torrent ''
               @ torrentHash' @ '' from '' @ baseUrl @ '': '' @ statusText)))
           else Return (Inr ()))"

section \<open>Repairing one file (src/lib/repair.ts, repairFile)\<close>

definition isAvailable :: "TorrentFile \<Rightarrow> bool" where
  "isAvailable f = (toLowerCase (file_status f) = ''available'')"

text \<open>
  The verification loop \<^verbatim>\<open>for (let attempt = 1; attempt <= maxRetries; attempt++)\<close> from the
  state in which \<open>attempt\<close> is about to be compared, followed by the \<^verbatim>\<open>failed\<close> return
  after the loop. \<^verbatim>\<open>continue\<close> (file not found) goes to the increment at once; the other
  paths that stay in the loop (status not available, and the inner \<^verbatim>\<open>catch\<close>) reach the
  wait at the end of the body first.
\<close>

function verifyLoop ::
  "(string \<Rightarrow> TorrentFile list) \<Rightarrow> 'a Torrent_scheme \<Rightarrow> TorrentFile \<Rightarrow> string \<Rightarrow> nat \<Rightarrow> nat \<Rightarrow> nat
     \<Rightarrow> RepairResult task"
where
  "verifyLoop parseTorrentFiles torrent file baseUrl maxRetries retryDelay attempt =
     (if attempt \<le> maxRetries then
        bind (getDetailedTorrent parseTorrentFiles torrent baseUrl) (\<lambda>fetched.
          case fetched of
            Inr updatedTorrent \<Rightarrow>
              (case find (\<lambda>f. file_id f = file_id file) (files updatedTorrent) of
                 None \<Rightarrow>
                   verifyLoop parseTorrentFiles torrent file baseUrl maxRetries retryDelay (attempt + 1)
               | Some updatedFile \<Rightarrow>
                   if isAvailable updatedFile then
                     Return \<lparr>torrentHash = torrent_hash torrent, fileId = file_id file,
                             fileName = file_name file, status = repaired,
                             message = ''File repaired successfully after '' @ natToString attempt
                               @ '' verification attempt(s)''\<rparr>
                   else if attempt < maxRetries then
                     Sleep retryDelay
                       (verifyLoop parseTorrentFiles torrent file baseUrl maxRetries retryDelay (attempt + 1))
                   else
                     verifyLoop parseTorrentFiles torrent file baseUrl maxRetries retryDelay (attempt + 1))
          | Inl verifyError \<Rightarrow>
              if attempt < maxRetries then
                Sleep retryDelay
                  (verifyLoop parseTorrentFiles torrent file baseUrl maxRetries retryDelay (attempt + 1))
              else
                verifyLoop parseTorrentFiles torrent file baseUrl maxRetries retryDelay (attempt + 1))
      else
        Return \<lparr>torrentHash = torrent_hash torrent, fileId = file_id file,
                fileName = file_name file, status = failed,
                message = ''File repair failed - still not available after '' @ natToString maxRetries
                  @ '' verification attempts''\<rparr>)"
  by pat_completeness auto
termination
  by (relation "measure (\<lambda>(p, t, f, b, maxRetries, d, attempt). maxRetries + 1 - attempt)") auto

declare verifyLoop.simps [simp del]

text \<open>
  \<^verbatim>\<open>repairFile\<close>: delete, restore, wait, verify. An error of the delete or the restore
  action is caught by the outer \<^verbatim>\<open>catch\<close>.
\<close>

definition repairError :: "'a Torrent_scheme \<Rightarrow> TorrentFile \<Rightarrow> js_error \<Rightarrow> RepairResult" where
  "repairError torrent file e =
     \<lparr>torrentHash = torrent_hash torrent, fileId = file_id file, fileName = file_name file,
      status = error, message = ''Repair process failed: '' @ errorMessage e\<rparr>"

definition repairFile ::
  "(string \<Rightarrow> TorrentFile list) \<Rightarrow> 'a Torrent_scheme \<Rightarrow> TorrentFile \<Rightarrow> string \<Rightarrow> nat \<Rightarrow> nat
     \<Rightarrow> RepairResult task"
where
  "repairFile parseTorrentFiles torrent file baseUrl maxRetries retryDelay =
     bind (deleteFile (torrent_hash torrent) (file_id file) baseUrl) (\<lambda>deleted.
       case deleted of
         Inl e \<Rightarrow> Return (repairError torrent file e)
       | Inr _ \<Rightarrow>
           bind (restoreFile (torrent_hash torrent) (file_id file) baseUrl) (\<lambda>restored.
             case restored of
               Inl e \<Rightarrow> Return (repairError torrent file e)
             | Inr _ \<Rightarrow>
                 Sleep retryDelay
                   (verifyLoop parseTorrentFiles torrent file baseUrl maxRetries retryDelay 1)))"

text \<open>Reading a trace: the bundle-detail fetches, and what a verification attempt found.\<close>

fun isDetailFetch :: "event \<Rightarrow> bool" where
  "isDetailFetch (Fetched (DetailReq h b) r) = True"
| "isDetailFetch e = False"

fun isDetailFetchOf :: "string \<Rightarrow> event \<Rightarrow> bool" where
  "isDetailFetchOf hash (Fetched (DetailReq h b) r) = (h = hash)"
| "isDetailFetchOf hash e = False"

definition detailFetches :: "trace \<Rightarrow> trace" where
  "detailFetches es = filter isDetailFetch es"

fun foundAvailable :: "(string \<Rightarrow> TorrentFile list) \<Rightarrow> string \<Rightarrow> event \<Rightarrow> bool" where
  "foundAvailable parseTorrentFiles fid (Fetched (DetailReq h b) (Response ok statusText html)) =
     (ok \<and> (case find (\<lambda>f. file_id f = fid) (parseTorrentFiles html) of
              None \<Rightarrow> False
            | Some updatedFile \<Rightarrow> isAvailable updatedFile))"
| "foundAvailable parseTorrentFiles fid e = False"

fun fileAbsent :: "(string \<Rightarrow> TorrentFile list) \<Rightarrow> string \<Rightarrow> event \<Rightarrow> bool" where
  "fileAbsent parseTorrentFiles fid (Fetched (DetailReq h b) (Response ok statusText html)) =
     (ok \<and> find (\<lambda>f. file_id f = fid) (parseTorrentFiles html) = None)"
| "fileAbsent parseTorrentFiles fid e = False"

text \<open>The two results the verification loop can return.\<close>

definition repairedAt :: "'a Torrent_scheme \<Rightarrow> TorrentFile \<Rightarrow> nat \<Rightarrow> RepairResult" where
  "repairedAt torrent file attempt =
     \<lparr>torrentHash = torrent_hash torrent, fileId = file_id file, fileName = file_name file,
      status = repaired,
      message = ''File repaired successfully after '' @ natToString attempt
        @ '' verification attempt(s)''\<rparr>"

definition exhausted :: "'a Torrent_scheme \<Rightarrow> TorrentFile \<Rightarrow> nat \<Rightarrow> RepairResult" where
  "exhausted torrent file maxRetries =
     \<lparr>torrentHash = torrent_hash torrent, fileId = file_id file, fileName = file_name file,
      status = failed,
      message = ''File repair failed - still not available after '' @ natToString maxRetries
        @ '' verification attempts''\<rparr>"

text \<open>
  What a run of the verification loop from attempt \<open>a\<close> can be, read off its detail
  fetches \<open>ds\<close>: exhausted after \<open>Suc m - a\<close> fetches none of which found the file
  available, or repaired at the first fetch that did, which is the last one.
\<close>

definition verifyOutcome ::
  "(string \<Rightarrow> TorrentFile list) \<Rightarrow> 'a Torrent_scheme \<Rightarrow> TorrentFile \<Rightarrow> nat \<Rightarrow> nat \<Rightarrow> RepairResult
     \<Rightarrow> trace \<Rightarrow> bool"
where
  "verifyOutcome p t f m a r ds =
     ((r = exhausted t f m \<and> (\<forall>e\<in>set ds. \<not> foundAvailable p (file_id f) e) \<and> length ds = Suc m - a)
      \<or> (\<exists>n. r = repairedAt t f (a + n) \<and> a + n \<le> m \<and> length ds = Suc n
             \<and> foundAvailable p (file_id f) (ds ! n)
             \<and> (\<forall>j<n. \<not> foundAvailable p (file_id f) (ds ! j))))"

text \<open>
  The waits between verification attempts, read off a trace: after every bundle-detail
  fetch that is not the last one, the events up to the next detail fetch are exactly one
  wait of the retry delay.
\<close>

fun oneWaitBetweenAttempts :: "nat \<Rightarrow> trace \<Rightarrow> bool" where
  "oneWaitBetweenAttempts retryDelay [] = True"
| "oneWaitBetweenAttempts retryDelay (e # es) =
     ((if isDetailFetch e \<and> detailFetches es \<noteq> []
       then takeWhile (\<lambda>x. \<not> isDetailFetch x) es = [Slept retryDelay] else True)
      \<and> oneWaitBetweenAttempts retryDelay es)"

section \<open>Concurrent batches\<close>

text \<open>
  \<^verbatim>\<open>PromiseSettledResult\<close>: a promise of an \<^verbatim>\<open>async\<close> function is fulfilled with the value the
  function returns or rejected with the error it throws.
\<close>

datatype 'a settled = Fulfilled 'a | RejectedWith js_error

fun settle :: "js_error + 'a \<Rightarrow> 'a settled" where
  "settle (Inl e) = RejectedWith e"
| "settle (Inr v) = Fulfilled v"

text \<open>
  \<^verbatim>\<open>Promise.allSettled\<close> over promises that run concurrently. The code does not determine
  the order in which their pending awaits complete, so that order is a parameter: a
  schedule names, step by step, the promise (by its index) whose pending await completes
  next; a step that names a settled promise or no promise is skipped. When the schedule is
  used up, the promises still pending are completed one after the other. The result lists
  the outcomes in the order of the promises, whatever the schedule.
\<close>

fun advance :: "service \<Rightarrow> nat list \<Rightarrow> trace \<Rightarrow> 'a task list \<Rightarrow> 'a task list \<times> trace" where
  "advance svc [] tr ts = (ts, [])"
| "advance svc (i # sched) tr ts =
     (if i < length ts then
        (case ts ! i of
           Return v \<Rightarrow> advance svc sched tr ts
         | Fetch q k \<Rightarrow>
             (let r = svc tr q;
                  (ts', es) = advance svc sched (tr @ [Fetched q r]) (ts[i := k r])
              in (ts', Fetched q r # es))
         | Sleep ms t \<Rightarrow>
             (let (ts', es) = advance svc sched (tr @ [Slept ms]) (ts[i := t])
              in (ts', Slept ms # es)))
      else advance svc sched tr ts)"

fun runAll :: "service \<Rightarrow> trace \<Rightarrow> 'a task list \<Rightarrow> 'a list \<times> trace" where
  "runAll svc tr [] = ([], [])"
| "runAll svc tr (t # ts) =
     (let (v, es) = run svc t tr;
          (vs, es') = runAll svc (tr @ es) ts
      in (v # vs, es @ es'))"

definition Promise_allSettled ::
  "service \<Rightarrow> nat list \<Rightarrow> trace \<Rightarrow> (js_error + 'a) task list \<Rightarrow> 'a settled list \<times> trace"
where
  "Promise_allSettled svc sched tr promises =
     (let (ts, es) = advance svc sched tr promises;
          (vs, es') = runAll svc (tr @ es) ts
      in (map settle vs, es @ es'))"

section \<open>Fetching the details of all torrents (src/lib/zurg.ts)\<close>

definition getManagePageHtml :: "string \<Rightarrow> (js_error + string) task" where
  "getManagePageHtml baseUrl =
     Fetch (ListReq baseUrl) (\<lambda>response.
       case response of
         Rejected m \<Rightarrow> Return (Inl (Error m))
       | Response ok statusText body \<Rightarrow>
           if \<not> ok then
             Return (Inl (Error (''Failed to fetch manage page from '' @ baseUrl @ '': ''
               @ statusText)))
           else Return (Inr body))"

text \<open>\<^verbatim>\<open>parseTorrentList\<close> reads the manage page with cheerio; it is a parameter.\<close>

definition getTorrentList ::
  "(string \<Rightarrow> Torrent list) \<Rightarrow> string \<Rightarrow> (js_error + Torrent list) task"
where
  "getTorrentList parseTorrentList baseUrl =
     bind (getManagePageHtml baseUrl) (\<lambda>fetched.
       case fetched of
         Inl e \<Rightarrow> Return (Inl e)
       | Inr html \<Rightarrow> Return (Inr (parseTorrentList html)))"

text \<open>
  The body of the \<^verbatim>\<open>forEach\<close> of \<^verbatim>\<open>processBatch\<close> for one settled result: what it pushes
  onto \<^verbatim>\<open>detailedTorrents\<close>.
\<close>

definition allFilesAvailable :: "DetailedTorrent \<Rightarrow> bool" where
  "allFilesAvailable detailedTorrent =
     list_all (\<lambda>file. toLowerCase (file_status file) = ''available'') (files detailedTorrent)"

definition assumeBroken :: "'a Torrent_scheme \<Rightarrow> DetailedTorrent" where
  "assumeBroken torrent =
     \<lparr>torrent_name = torrent_name torrent, torrent_hash = torrent_hash torrent,
      torrent_size = torrent_size torrent, torrent_date = torrent_date torrent, files = []\<rparr>"

fun pushDetailed ::
  "'a Torrent_scheme list \<Rightarrow> DetailedTorrent list \<Rightarrow> DetailedTorrent settled \<times> nat
     \<Rightarrow> DetailedTorrent list"
where
  "pushDetailed torrents detailedTorrents (result, index) =
     (if \<not> index < length torrents then detailedTorrents
      else
        (case result of
           Fulfilled detailedTorrent \<Rightarrow>
             if \<not> allFilesAvailable detailedTorrent then detailedTorrents @ [detailedTorrent]
             else detailedTorrents
         | RejectedWith reason \<Rightarrow> detailedTorrents @ [assumeBroken (torrents ! index)]))"

definition processBatch ::
  "(string \<Rightarrow> TorrentFile list) \<Rightarrow> service \<Rightarrow> nat list \<Rightarrow> trace \<Rightarrow> 'a Torrent_scheme list \<Rightarrow> string
     \<Rightarrow> DetailedTorrent list \<times> trace"
where
  "processBatch parseTorrentFiles svc sched tr torrents baseUrl =
     (let (results, es) =
            Promise_allSettled svc sched tr
              (map (\<lambda>torrent. getDetailedTorrent parseTorrentFiles torrent baseUrl) torrents)
      in (foldl (pushDetailed torrents) [] (zip results [0..<length results]), es))"

text \<open>
  For one torrent of a batch, by the result of the fetch of its detail page: the detailed
  torrent \<^verbatim>\<open>getDetailedTorrent\<close> builds from a page, and what \<^verbatim>\<open>processBatch\<close> pushes.
\<close>

fun failedFetch :: "fetch_result \<Rightarrow> bool" where
  "failedFetch (Rejected m) = True"
| "failedFetch (Response ok statusText body) = (\<not> ok)"

definition detailedOf ::
  "(string \<Rightarrow> TorrentFile list) \<Rightarrow> 'a Torrent_scheme \<Rightarrow> string \<Rightarrow> DetailedTorrent"
where
  "detailedOf parseTorrentFiles torrent html =
     \<lparr>torrent_name = torrent_name torrent, torrent_hash = torrent_hash torrent,
      torrent_size = torrent_size torrent, torrent_date = torrent_date torrent,
      files = parseTorrentFiles html\<rparr>"

definition detailOutcome ::
  "(string \<Rightarrow> TorrentFile list) \<Rightarrow> 'a Torrent_scheme \<Rightarrow> fetch_result \<Rightarrow> DetailedTorrent list"
where
  "detailOutcome parseTorrentFiles torrent r =
     (case r of
        Rejected m \<Rightarrow> [assumeBroken torrent]
      | Response ok statusText html \<Rightarrow>
          if \<not> ok then [assumeBroken torrent]
          else if allFilesAvailable (detailedOf parseTorrentFiles torrent html) then []
          else [detailedOf parseTorrentFiles torrent html])"

text \<open>
  \<^verbatim>\<open>chunkArray\<close>: \<^verbatim>\<open>for (let i = 0; i < array.length; i += chunkSize)\<close>. With
  \<open>chunkSize = 0\<close> and a non-empty array the loop does not end.
\<close>

partial_function (option) chunkLoop ::
  "'a list \<Rightarrow> nat \<Rightarrow> nat \<Rightarrow> 'a list list \<Rightarrow> 'a list list option"
where
  "chunkLoop array chunkSize i chunks =
     (if i < length array then
        chunkLoop array chunkSize (i + chunkSize) (chunks @ [take chunkSize (drop i array)])
      else Some chunks)"

declare chunkLoop.simps [code]

definition chunkArray :: "'a list \<Rightarrow> nat \<Rightarrow> 'a list list option" where
  "chunkArray array chunkSize = chunkLoop array chunkSize 0 []"

text \<open>
  The loop of \<^verbatim>\<open>getDetailedTorrentsConcurrently\<close> over the chunks, from chunk \<open>i\<close>, one
  batch after the other; \<open>scheds i\<close> is the schedule of batch \<open>i\<close>. \<^verbatim>\<open>processBatch\<close> does
  not throw, so the \<^verbatim>\<open>catch\<close> around it is never entered.
\<close>

fun detailLoop ::
  "(string \<Rightarrow> TorrentFile list) \<Rightarrow> service \<Rightarrow> (nat \<Rightarrow> nat list) \<Rightarrow> string \<Rightarrow> trace
     \<Rightarrow> 'a Torrent_scheme list list \<Rightarrow> nat \<Rightarrow> DetailedTorrent list \<Rightarrow> DetailedTorrent list \<times> trace"
where
  "detailLoop parseTorrentFiles svc scheds baseUrl tr [] i allDetailedTorrents =
     (allDetailedTorrents, [])"
| "detailLoop parseTorrentFiles svc scheds baseUrl tr (chunk # chunks) i allDetailedTorrents =
     (let (batchResults, es) = processBatch parseTorrentFiles svc (scheds i) tr chunk baseUrl;
          (result, es') =
            detailLoop parseTorrentFiles svc scheds baseUrl (tr @ es) chunks (i + 1)
              (allDetailedTorrents @ batchResults)
      in (result, es @ es'))"

definition getDetailedTorrentsConcurrently ::
  "(string \<Rightarrow> TorrentFile list) \<Rightarrow> service \<Rightarrow> (nat \<Rightarrow> nat list) \<Rightarrow> trace \<Rightarrow> 'a Torrent_scheme list
     \<Rightarrow> string \<Rightarrow> nat \<Rightarrow> (DetailedTorrent list \<times> trace) option"
where
  "getDetailedTorrentsConcurrently parseTorrentFiles svc scheds tr torrents baseUrl concurrencyLimit =
     (case chunkArray torrents concurrencyLimit of
        None \<Rightarrow> None
      | Some chunks \<Rightarrow> Some (detailLoop parseTorrentFiles svc scheds baseUrl tr chunks 0 []))"

section \<open>Repairing many files (src/lib/repair.ts, repairFilesConcurrently)\<close>

text \<open>
  \<^verbatim>\<open>String(result.reason)\<close> of an error whose name is \<^verbatim>\<open>Error\<close>: the name and the
  message. The model keeps the message of an error only, so an error of another name (a
  \<^verbatim>\<open>TypeError\<close> renders as \<^verbatim>\<open>TypeError: ...\<close>) is rendered with the name \<^verbatim>\<open>Error\<close>
  here. The promises of \<^verbatim>\<open>repairFile\<close> are never rejected, so no run reaches this text.
\<close>

definition errorToString :: "js_error \<Rightarrow> string" where
  "errorToString e = (if errorMessage e = [] then ''Error'' else ''Error: '' @ errorMessage e)"

fun pushRepair ::
  "('a Torrent_scheme \<times> TorrentFile) list \<Rightarrow> RepairResult list \<Rightarrow> RepairResult settled \<times> nat
     \<Rightarrow> RepairResult list"
where
  "pushRepair chunk results (result, index) =
     (case result of
        Fulfilled v \<Rightarrow> results @ [v]
      | RejectedWith reason \<Rightarrow>
          if index < length chunk then
            results @ [\<lparr>torrentHash = torrent_hash (fst (chunk ! index)),
                         fileId = file_id (snd (chunk ! index)),
                         fileName = file_name (snd (chunk ! index)),
                         status = error,
                         message = ''Repair promise rejected: '' @ errorToString reason\<rparr>]
          else results)"

text \<open>
  The loop \<^verbatim>\<open>for (let i = 0; i < repairs.length; i += concurrencyLimit)\<close> from the state
  in which \<open>i\<close> is about to be compared: \<open>results\<close> and the events \<open>es\<close> so far are
  carried along; \<open>scheds i\<close> is the schedule of the batch that starts at \<open>i\<close>. An
  \<^verbatim>\<open>async\<close> function that returns a value fulfils its promise with it.
\<close>

partial_function (option) repairLoop ::
  "(string \<Rightarrow> TorrentFile list) \<Rightarrow> service \<Rightarrow> (nat \<Rightarrow> nat list) \<Rightarrow> trace
     \<Rightarrow> ('a Torrent_scheme \<times> TorrentFile) list \<Rightarrow> string \<Rightarrow> nat \<Rightarrow> nat \<Rightarrow> nat
     \<Rightarrow> nat \<Rightarrow> RepairResult list \<Rightarrow> trace \<Rightarrow> (RepairResult list \<times> trace) option"
where
  "repairLoop parseTorrentFiles svc scheds tr repairs baseUrl concurrencyLimit maxRetries retryDelay
       i results es =
     (if i < length repairs then
        (let chunk = take concurrencyLimit (drop i repairs);
             chunkPromises =
               map (\<lambda>(torrent, file).
                      map_task Inr (repairFile parseTorrentFiles torrent file baseUrl maxRetries retryDelay))
                 chunk;
             settledChunk = Promise_allSettled svc (scheds i) (tr @ es) chunkPromises
         in repairLoop parseTorrentFiles svc scheds tr repairs baseUrl concurrencyLimit maxRetries
              retryDelay (i + concurrencyLimit)
              (foldl (pushRepair chunk) results
                 (zip (fst settledChunk) [0..<length (fst settledChunk)]))
              (es @ snd settledChunk))
      else Some (results, es))"

declare repairLoop.simps [code]

definition repairFilesConcurrently ::
  "(string \<Rightarrow> TorrentFile list) \<Rightarrow> service \<Rightarrow> (nat \<Rightarrow> nat list) \<Rightarrow> trace
     \<Rightarrow> ('a Torrent_scheme \<times> TorrentFile) list \<Rightarrow> string \<Rightarrow> nat \<Rightarrow> nat \<Rightarrow> nat
     \<Rightarrow> (RepairResult list \<times> trace) option"
where
  "repairFilesConcurrently parseTorrentFiles svc scheds tr repairs baseUrl concurrencyLimit maxRetries
       retryDelay =
     repairLoop parseTorrentFiles svc scheds tr repairs baseUrl concurrencyLimit maxRetries retryDelay
       0 [] []"

text \<open>
  \<open>yields t es v\<close>: the task \<open>t\<close>, given the results recorded in the events \<open>es\<close> at its
  awaits, returns \<open>v\<close>.
\<close>

inductive yields :: "'a task \<Rightarrow> trace \<Rightarrow> 'a \<Rightarrow> bool" where
  yields_Return: "yields (Return v) [] v"
| yields_Fetch: "yields (k r) es v \<Longrightarrow> yields (Fetch q k) (Fetched q r # es) v"
| yields_Sleep: "yields t es v \<Longrightarrow> yields (Sleep ms t) (Slept ms # es) v"

text \<open>A repair result that carries the identifiers of a repair target.\<close>

definition resultFor :: "'a Torrent_scheme \<times> TorrentFile \<Rightarrow> RepairResult \<Rightarrow> bool" where
  "resultFor target r =
     (torrentHash r = torrent_hash (fst target) \<and> fileId r = file_id (snd target)
      \<and> fileName r = file_name (snd target))"

section \<open>Running one instance (src/lib/repair-runner.ts)\<close>

text \<open>
  \<^verbatim>\<open>ZurgInstance\<close> (src/lib/config.ts). The field names carry the prefix \<open>inst_\<close>, since
  \<^verbatim>\<open>baseUrl\<close>, \<^verbatim>\<open>concurrencyLimit\<close> and \<^verbatim>\<open>retryDelay\<close> are also parameter names of the
  functions above.
\<close>

record ZurgInstance =
  inst_name :: string
  inst_baseUrl :: string
  inst_concurrencyLimit :: nat
  inst_cronSchedule :: string
  inst_enabled :: bool
  inst_retryAttempts :: nat
  inst_retryDelay :: nat

text \<open>Step 3, the broken files of the detailed torrents, torrent by torrent.\<close>

definition collectBrokenFiles :: "DetailedTorrent list \<Rightarrow> (DetailedTorrent \<times> TorrentFile) list" where
  "collectBrokenFiles detailedTorrents =
     concat (map (\<lambda>torrent.
        (let brokenFilesInTorrent =
               filter (\<lambda>file. toLowerCase (file_status file) \<noteq> ''available'') (files torrent)
         in if length brokenFilesInTorrent > 0
            then map (\<lambda>file. (torrent, file)) brokenFilesInTorrent else []))
       detailedTorrents)"

text \<open>
  Step 6, \<^verbatim>\<open>repairResults.reduce((acc, result) => { acc[result.status]++; return acc; },
  { repaired: 0, failed: 0, error: 0 })\<close>: the summary maps a status to its count.
\<close>

definition summarize :: "RepairResult list \<Rightarrow> repair_status \<Rightarrow> nat" where
  "summarize repairResults =
     foldl (\<lambda>acc result. acc(status result := acc (status result) + 1)) (\<lambda>s. 0) repairResults"

text \<open>
  \<^verbatim>\<open>runRepairForInstance\<close> has the return type \<^verbatim>\<open>Promise<void>\<close>: it returns nothing or
  throws. The model gives this outcome, and with it the value of the local variable
  \<^verbatim>\<open>repairResults\<close> (empty when the run ends before step 5) and the events of the run, so
  that statements can refer to them. The \<^verbatim>\<open>catch\<close> around the body logs and throws the
  error again. \<open>schedsD\<close> and \<open>schedsR\<close> are the schedules of the detail batches and of the
  repair batches.
\<close>

definition runRepairForInstance ::
  "(string \<Rightarrow> Torrent list) \<Rightarrow> (string \<Rightarrow> TorrentFile list) \<Rightarrow> service
     \<Rightarrow> (nat \<Rightarrow> nat list) \<Rightarrow> (nat \<Rightarrow> nat list) \<Rightarrow> trace \<Rightarrow> ZurgInstance
     \<Rightarrow> ((js_error + unit) \<times> RepairResult list \<times> trace) option"
where
  "runRepairForInstance parseTorrentList parseTorrentFiles svc schedsD schedsR tr instance =
     (let (listed, es0) = run svc (getTorrentList parseTorrentList (inst_baseUrl instance)) tr in
      case listed of
        Inl e \<Rightarrow> Some (Inl e, [], es0)
      | Inr allTorrents \<Rightarrow>
          if length allTorrents = 0 then Some (Inr (), [], es0)
          else
            (case getDetailedTorrentsConcurrently parseTorrentFiles svc schedsD (tr @ es0) allTorrents
                    (inst_baseUrl instance) (inst_concurrencyLimit instance) of
               None \<Rightarrow> None
             | Some (detailedTorrents, es1) \<Rightarrow>
                 (let brokenFiles = collectBrokenFiles detailedTorrents in
                  if length brokenFiles = 0 then Some (Inr (), [], es0 @ es1)
                  else
                    (case repairFilesConcurrently parseTorrentFiles svc schedsR (tr @ es0 @ es1)
                            brokenFiles (inst_baseUrl instance) (inst_concurrencyLimit instance)
                            (inst_retryAttempts instance) (inst_retryDelay instance) of
                       None \<Rightarrow> None
                     | Some (repairResults, es2) \<Rightarrow>
                         (let summary = summarize repairResults in
                          if summary failed > 0 \<or> summary error > 0 then
                            Some (Inl (Error (''Some repairs failed for instance '' @ [CHR 0x27]
                                    @ inst_name instance @ [CHR 0x27] @ ''. ''
                                    @ natToString (summary failed) @ '' failed, ''
                                    @ natToString (summary error) @ '' errors.'')),
                                  repairResults, es0 @ es1 @ es2)
                          else Some (Inr (), repairResults, es0 @ es1 @ es2))))))"

section \<open>The scheduler (src/lib/scheduler.ts)\<close>

text \<open>
  The state of a \<^verbatim>\<open>ZurgScheduler\<close>: the names that have a cron task in \<^verbatim>\<open>jobs\<close>, and the
  set \<^verbatim>\<open>runningJobs\<close>.
\<close>

record ZurgScheduler =
  jobs :: "string set"
  runningJobs :: "string set"

text \<open>
  \<^verbatim>\<open>executeInstance\<close> is an \<^verbatim>\<open>async\<close> method with one suspension point,
  \<^verbatim>\<open>await runRepairForInstance(instance)\<close>. JavaScript runs the code before the await, and
  the code after it, without interruption. \<open>executeInstance_begin\<close> is the code up to
  the await: it tells whether \<^verbatim>\<open>runRepairForInstance\<close> is invoked. \<open>executeInstance_end\<close>
  is the code after the run has completed with the given outcome: the rest of the
  \<^verbatim>\<open>try\<close> block or the \<^verbatim>\<open>catch\<close> block, which only log, and the \<^verbatim>\<open>finally\<close> block.
\<close>

definition executeInstance_begin :: "ZurgInstance \<Rightarrow> ZurgScheduler \<Rightarrow> bool \<times> ZurgScheduler" where
  "executeInstance_begin instance this =
     (let jobKey = inst_name instance in
      if jobKey \<in> runningJobs this then (False, this)
      else (True, this\<lparr>runningJobs := insert jobKey (runningJobs this)\<rparr>))"

definition executeInstance_end ::
  "ZurgInstance \<Rightarrow> js_error + unit \<Rightarrow> ZurgScheduler \<Rightarrow> ZurgScheduler"
where
  "executeInstance_end instance outcome this =
     (let jobKey = inst_name instance in
      case outcome of
        Inr u \<Rightarrow> this\<lparr>runningJobs := runningJobs this - {jobKey}\<rparr>
      | Inl e \<Rightarrow> this\<lparr>runningJobs := runningJobs this - {jobKey}\<rparr>)"

text \<open>
  The scheduler in the event loop. A trigger (a cron fire or \<^verbatim>\<open>runInstanceNow\<close>) runs
  \<open>executeInstance_begin\<close>; a run of \<^verbatim>\<open>runRepairForInstance\<close> that is in progress may
  complete, with success or with an error, and then \<open>executeInstance_end\<close> runs. The
  system state has, besides the scheduler, the runs in progress (by instance name, with
  multiplicity) and the number of invocations of \<^verbatim>\<open>runRepairForInstance\<close> so far.
\<close>

record system =
  scheduler :: ZurgScheduler
  inProgress :: "string multiset"
  invocations :: nat

datatype sched_event =
  Trigger ZurgInstance
| Completed ZurgInstance "js_error + unit"

fun step :: "system \<Rightarrow> sched_event \<Rightarrow> system" where
  "step s (Trigger instance) =
     (case executeInstance_begin instance (scheduler s) of
        (False, this) \<Rightarrow> s\<lparr>scheduler := this\<rparr>
      | (True, this) \<Rightarrow>
          s\<lparr>scheduler := this, inProgress := add_mset (inst_name instance) (inProgress s),
            invocations := invocations s + 1\<rparr>)"
| "step s (Completed instance outcome) =
     (if inst_name instance \<in># inProgress s then
        s\<lparr>scheduler := executeInstance_end instance outcome (scheduler s),
          inProgress := inProgress s - {#inst_name instance#}\<rparr>
      else s)"

definition initial :: system where
  "initial = \<lparr>scheduler = \<lparr>jobs = {}, runningJobs = {}\<rparr>, inProgress = {#}, invocations = 0\<rparr>"

definition runEvents :: "sched_event list \<Rightarrow> system" where
  "runEvents evs = foldl step initial evs"

section \<open>Example inputs\<close>

definition exTorrent :: Torrent where
  "exTorrent = \<lparr>torrent_name = ''Show'', torrent_hash = ''abc123'', torrent_size = ''1.4 GB'',
                 torrent_date = ''2024-05-01''\<rparr>"

definition exFile :: TorrentFile where
  "exFile = \<lparr>file_name = ''ep1.mkv'', file_size = ''700 MB'', file_status = ''Broken'',
              file_id = ''7''\<rparr>"

text \<open>A stand-in for the page parser: three pages, with the file repaired, broken, or gone.\<close>

definition exTorrentB :: Torrent where
  "exTorrentB = \<lparr>torrent_name = ''Movie'', torrent_hash = ''def456'', torrent_size = ''8 GB'',
                  torrent_date = ''2024-06-11''\<rparr>"

definition exFileB :: TorrentFile where
  "exFileB = \<lparr>file_name = ''movie.mkv'', file_size = ''8 GB'', file_status = ''Broken'',
               file_id = ''3''\<rparr>"

definition exTorrentC :: Torrent where
  "exTorrentC = \<lparr>torrent_name = ''Album'', torrent_hash = ''ghi789'', torrent_size = ''90 MB'',
                  torrent_date = ''2024-07-02''\<rparr>"

text \<open>
  Stand-ins for the page parsers: the detail pages of the first torrent with its file
  repaired, broken or gone, the detail page of the second torrent, and a manage page.
\<close>

definition exParse :: "string \<Rightarrow> TorrentFile list" where
  "exParse html =
     (if html = ''fixed'' then [exFile\<lparr>file_status := ''Available''\<rparr>]
      else if html = ''broken'' then [exFile]
      else if html = ''brokenB'' then [exFileB]
      else [])"

definition exParseList :: "string \<Rightarrow> Torrent list" where
  "exParseList html = (if html = ''list'' then [exTorrent, exTorrentB] else [])"

definition svcDown :: service where
  "svcDown tr q = Rejected ''connect ECONNREFUSED''"

definition svcSecondTry :: service where
  "svcSecondTry tr q =
     (case q of
        DetailReq h b \<Rightarrow>
          if detailFetches tr = [] then Response True ''OK'' ''broken''
          else Response True ''OK'' ''fixed''
      | _ \<Rightarrow> Response True ''OK'' [])"

definition svcNeverFixed :: service where
  "svcNeverFixed tr q =
     (case q of
        DetailReq h b \<Rightarrow> Response True ''OK'' ''broken''
      | _ \<Rightarrow> Response True ''OK'' [])"

definition svcFileGone :: service where
  "svcFileGone tr q = Response True ''OK'' ''gone''"

text \<open>
  A service with two torrents: the file of the first becomes available at its third detail
  fetch, the file of the second never does; the detail page of any other torrent is not
  found.
\<close>

definition svcTwo :: service where
  "svcTwo tr q =
     (case q of
        ListReq b \<Rightarrow> Response True ''OK'' ''list''
      | DetailReq h b \<Rightarrow>
          if h = ''abc123'' then
            (if length (filter (isDetailFetchOf ''abc123'') tr) < 2
             then Response True ''OK'' ''broken''
             else Response True ''OK'' ''fixed'')
          else if h = ''def456'' then Response True ''OK'' ''brokenB''
          else Response False ''Not Found'' []
      | _ \<Rightarrow> Response True ''OK'' [])"

text \<open>A schedule that alternates between the first two promises of a batch.\<close>

definition exSched :: "nat \<Rightarrow> nat list" where
  "exSched i = [1, 0, 1, 0, 0, 1]"

definition exInstance :: ZurgInstance where
  "exInstance = \<lparr>inst_name = ''main'', inst_baseUrl = ''http://zurg:9999'',
                  inst_concurrencyLimit = 2, inst_cronSchedule = ''0 */6 * * *'',
                  inst_enabled = True, inst_retryAttempts = 3, inst_retryDelay = 2000\<rparr>"

section \<open>Running tasks\<close>

lemma run_bind:
  "run svc (bind t f) tr =
     (let (v, es) = run svc t tr; (w, es') = run svc (f v) (tr @ es) in (w, es @ es'))"
  by (induction t arbitrary: tr) (simp_all add: Let_def split: prod.splits)

lemma run_in_set_task: "fst (run svc t tr) \<in> set_task t"
proof (induction t arbitrary: tr)
  case (Fetch q k)
  have "fst (run svc (k (svc tr q)) (tr @ [Fetched q (svc tr q)])) \<in> set_task (k (svc tr q))"
    using Fetch.IH by simp
  then show ?case by (auto simp: Let_def split: prod.splits)
next
  case (Sleep ms t)
  have "fst (run svc t (tr @ [Slept ms])) \<in> set_task t" using Sleep.IH by simp
  then show ?case by (auto simp: Let_def split: prod.splits)
qed simp

lemma set_task_bind: "set_task (bind t f) = (\<Union>v\<in>set_task t. set_task (f v))"
  by (induction t) auto

section \<open>Repairing one file: the run of the verification loop\<close>

lemma run_getDetailedTorrent:
  "run svc (getDetailedTorrent p t b) tr =
     (let r = svc tr (DetailReq (torrent_hash t) b) in
       (case r of
          Rejected m \<Rightarrow> Inl (Error m)
        | Response ok st html \<Rightarrow>
            if \<not> ok then Inl (Error (''Failed to fetch torrent details page for hash '' @ torrent_hash t
               @ '' from '' @ b @ '': '' @ st))
            else Inr \<lparr>torrent_name = torrent_name t, torrent_hash = torrent_hash t,
                        torrent_size = torrent_size t, torrent_date = torrent_date t,
                        files = p html\<rparr>,
        [Fetched (DetailReq (torrent_hash t) b) r]))"
  by (simp add: getDetailedTorrent_def getTorrentDetailsPageHtml_def Let_def split: fetch_result.splits)

lemma verify_done: "\<not> a \<le> m \<Longrightarrow> run svc (verifyLoop p t f b m d a) tr = (exhausted t f m, [])"
  by (subst verifyLoop.simps) (simp add: exhausted_def)

lemma verify_step:
  assumes "a \<le> m"
  shows "run svc (verifyLoop p t f b m d a) tr =
     (let e = Fetched (DetailReq (torrent_hash t) b) (svc tr (DetailReq (torrent_hash t) b)) in
      if foundAvailable p (file_id f) e then (repairedAt t f a, [e])
      else if fileAbsent p (file_id f) e \<or> \<not> a < m then
        (let (v, es) = run svc (verifyLoop p t f b m d (a + 1)) (tr @ [e]) in (v, e # es))
      else
        (let (v, es) = run svc (verifyLoop p t f b m d (a + 1)) (tr @ [e, Slept d]) in (v, e # Slept d # es)))"
  using assms
  apply (subst verifyLoop.simps)
  apply (simp add: run_bind run_getDetailedTorrent Let_def repairedAt_def split: fetch_result.splits option.splits prod.splits)
  done

lemma detailFetches_simps [simp]:
  "detailFetches [] = []"
  "detailFetches (Fetched (DetailReq h b) r # es) = Fetched (DetailReq h b) r # detailFetches es"
  "detailFetches (Fetched (DeleteReq h i b) r # es) = detailFetches es"
  "detailFetches (Fetched (RestoreReq h i b) r # es) = detailFetches es"
  "detailFetches (Fetched (ListReq b) r # es) = detailFetches es"
  "detailFetches (Slept d # es) = detailFetches es"
  by (simp_all add: detailFetches_def)

lemma verifyOutcome_Cons:
  assumes "verifyOutcome p t f m (a + 1) r ds" and "\<not> foundAvailable p (file_id f) e" and "a \<le> m"
  shows "verifyOutcome p t f m a r (e # ds)"
  using assms(1) unfolding verifyOutcome_def
proof (elim disjE exE conjE)
  assume "r = exhausted t f m" "\<forall>e\<in>set ds. \<not> foundAvailable p (file_id f) e" "length ds = Suc m - (a + 1)"
  then show "(r = exhausted t f m \<and> (\<forall>e\<in>set (e # ds). \<not> foundAvailable p (file_id f) e) \<and> length (e # ds) = Suc m - a)
      \<or> (\<exists>n. r = repairedAt t f (a + n) \<and> a + n \<le> m \<and> length (e # ds) = Suc n
             \<and> foundAvailable p (file_id f) ((e # ds) ! n)
             \<and> (\<forall>j<n. \<not> foundAvailable p (file_id f) ((e # ds) ! j)))"
    using assms(2,3) by (auto simp: Suc_diff_le)
next
  fix n
  assume h: "r = repairedAt t f (a + 1 + n)" "a + 1 + n \<le> m" "length ds = Suc n"
     "foundAvailable p (file_id f) (ds ! n)" "\<forall>j<n. \<not> foundAvailable p (file_id f) (ds ! j)"
  have "\<forall>j<Suc n. \<not> foundAvailable p (file_id f) ((e # ds) ! j)"
    using h(5) assms(2) by (simp add: nth_Cons split: nat.splits)
  with h have "r = repairedAt t f (a + Suc n) \<and> a + Suc n \<le> m \<and> length (e # ds) = Suc (Suc n)
             \<and> foundAvailable p (file_id f) ((e # ds) ! Suc n)
             \<and> (\<forall>j<Suc n. \<not> foundAvailable p (file_id f) ((e # ds) ! j))"
    by simp
  then show "(r = exhausted t f m \<and> (\<forall>e\<in>set (e # ds). \<not> foundAvailable p (file_id f) e) \<and> length (e # ds) = Suc m - a)
      \<or> (\<exists>n. r = repairedAt t f (a + n) \<and> a + n \<le> m \<and> length (e # ds) = Suc n
             \<and> foundAvailable p (file_id f) ((e # ds) ! n)
             \<and> (\<forall>j<n. \<not> foundAvailable p (file_id f) ((e # ds) ! j)))"
    by blast
qed

lemma verify_run:
  "run svc (verifyLoop p t f b m d a) tr = (r, es) \<Longrightarrow> verifyOutcome p t f m a r (detailFetches es)"
proof (induction k \<equiv> "Suc m - a" arbitrary: a tr r es)
  case 0
  then have "\<not> a \<le> m" by simp
  with "0.prems" have "r = exhausted t f m" "es = []" by (simp_all add: verify_done)
  then show ?case using 0 by (simp add: verifyOutcome_def)
next
  case (Suc k)
  then have am: "a \<le> m" and k: "k = Suc m - (a + 1)" by simp_all
  define e where "e = Fetched (DetailReq (torrent_hash t) b) (svc tr (DetailReq (torrent_hash t) b))"
  show ?case
  proof (cases "foundAvailable p (file_id f) e")
    case True
    with Suc.prems am have "r = repairedAt t f a" "es = [e]"
      by (simp_all add: verify_step e_def Let_def)
    then have "r = repairedAt t f (a + 0) \<and> a + 0 \<le> m \<and> length (detailFetches es) = Suc 0
             \<and> foundAvailable p (file_id f) (detailFetches es ! 0)
             \<and> (\<forall>j<0. \<not> foundAvailable p (file_id f) (detailFetches es ! j))"
      using True am by (simp add: e_def)
    then show ?thesis unfolding verifyOutcome_def by blast
  next
    case False
    have step: "run svc (verifyLoop p t f b m d a) tr =
      (if fileAbsent p (file_id f) e \<or> \<not> a < m then
        (let (v, es) = run svc (verifyLoop p t f b m d (a + 1)) (tr @ [e]) in (v, e # es))
      else
        (let (v, es) = run svc (verifyLoop p t f b m d (a + 1)) (tr @ [e, Slept d]) in (v, e # Slept d # es)))"
      using verify_step [OF am, of svc p t f b d tr] False by (simp add: e_def Let_def)
    obtain tr1 where tr1: "tr1 = (if fileAbsent p (file_id f) e \<or> \<not> a < m then tr @ [e] else tr @ [e, Slept d])"
      by simp
    obtain r1 es1 where run1': "run svc (verifyLoop p t f b m d (a + 1)) tr1 = (r1, es1)"
      by (cases "run svc (verifyLoop p t f b m d (a + 1)) tr1")
    have "r = r1 \<and> detailFetches es = e # detailFetches es1"
      using Suc.prems step run1' tr1 by (auto simp: e_def split: if_splits)
    then have run1: "run svc (verifyLoop p t f b m d (a + 1)) tr1 = (r, es1)"
      and es: "detailFetches es = e # detailFetches es1"
      using run1' by simp_all
    have "verifyOutcome p t f m (a + 1) r (detailFetches es1)"
      using Suc.hyps(1) [OF k run1] .
    then show ?thesis using verifyOutcome_Cons [of p t f m a r "detailFetches es1" e] False am es by simp
  qed
qed

lemma repairFile_run_cases:
  assumes "run svc (repairFile p t f b m d) tr = (r, es)"
  shows "(\<exists>e. r = repairError t f e \<and> detailFetches es = [] \<and>
            (fst (run svc (deleteFile (torrent_hash t) (file_id f) b) tr) = Inl e
             \<or> (\<exists>es1. run svc (deleteFile (torrent_hash t) (file_id f) b) tr = (Inr (), es1)
                   \<and> fst (run svc (restoreFile (torrent_hash t) (file_id f) b) (tr @ es1)) = Inl e)))
       \<or> ((\<exists>es1 es2. run svc (deleteFile (torrent_hash t) (file_id f) b) tr = (Inr (), es1)
             \<and> run svc (restoreFile (torrent_hash t) (file_id f) b) (tr @ es1) = (Inr (), es2))
           \<and> verifyOutcome p t f m 1 r (detailFetches es))"
proof -
  obtain x es1 where d: "run svc (deleteFile (torrent_hash t) (file_id f) b) tr = (x, es1)"
    by (cases "run svc (deleteFile (torrent_hash t) (file_id f) b) tr")
  have d1: "detailFetches es1 = []" using d
    by (auto simp: deleteFile_def Let_def split: fetch_result.splits if_splits)
  show ?thesis
  proof (cases x)
    case (Inl e)
    with d assms have "r = repairError t f e" "es = es1"
      by (simp_all add: repairFile_def run_bind)
    with d d1 Inl show ?thesis by auto
  next
    case (Inr u)
    obtain y es2 where rs: "run svc (restoreFile (torrent_hash t) (file_id f) b) (tr @ es1) = (y, es2)"
      by (cases "run svc (restoreFile (torrent_hash t) (file_id f) b) (tr @ es1)")
    have d2: "detailFetches es2 = []" using rs
      by (auto simp: restoreFile_def Let_def split: fetch_result.splits if_splits)
    show ?thesis
    proof (cases y)
      case (Inl e)
      with d Inr rs assms have "r = repairError t f e" "es = es1 @ es2"
        by (simp_all add: repairFile_def run_bind)
      with d d1 d2 Inr Inl rs show ?thesis by (auto simp: detailFetches_def)
    next
      case Inr2: (Inr u2)
      obtain es3 where v: "run svc (verifyLoop p t f b m d 1) (tr @ es1 @ es2 @ [Slept d]) = (r, es3)"
        and es: "es = es1 @ es2 @ Slept d # es3"
        using d Inr rs Inr2 assms
        by (auto simp: repairFile_def run_bind Let_def split: prod.splits)
      have "detailFetches es = detailFetches es3" using es d1 d2 by (simp add: detailFetches_def)
      with verify_run [OF v] d Inr rs Inr2 show ?thesis by auto
    qed
  qed
qed

section \<open>Repairing one file: properties of a run\<close>

lemmas example_defs = exTorrent_def exFile_def exParse_def svcDown_def svcSecondTry_def
  svcNeverFixed_def svcFileGone_def

lemmas repairFile_eval = repairFile_def deleteFile_def restoreFile_def getDetailedTorrent_def
  getTorrentDetailsPageHtml_def verifyLoop.simps isAvailable_def toLowerCase_def lowerChar_def
  natToString.simps digitChar_def repairError_def Let_def

lemma verifyLoop_leaves_step:
  assumes "a \<le> m" and "r \<in> set_task (verifyLoop p t f b m d a)"
  shows "r = repairedAt t f a \<or> r \<in> set_task (verifyLoop p t f b m d (a + 1))"
proof -
  define g where "g = (\<lambda>fetched :: js_error + DetailedTorrent.
        case fetched of
          Inr updatedTorrent \<Rightarrow>
            (case find (\<lambda>g. file_id g = file_id f) (files updatedTorrent) of
               None \<Rightarrow> verifyLoop p t f b m d (a + 1)
             | Some updatedFile \<Rightarrow>
                 if isAvailable updatedFile then Return (repairedAt t f a)
                 else if a < m then Sleep d (verifyLoop p t f b m d (a + 1))
                 else verifyLoop p t f b m d (a + 1))
        | Inl verifyError \<Rightarrow>
            if a < m then Sleep d (verifyLoop p t f b m d (a + 1))
            else verifyLoop p t f b m d (a + 1))"
  have "verifyLoop p t f b m d a = bind (getDetailedTorrent p t b) g"
    unfolding g_def repairedAt_def
    by (rule trans [OF verifyLoop.simps]) (simp only: assms(1) if_True)
  with assms(2) obtain x where r: "r \<in> set_task (g x)"
    by (auto simp: set_task_bind)
  show ?thesis
  proof (cases x)
    case (Inl e)
    with r show ?thesis by (simp add: g_def split: if_splits)
  next
    case (Inr u)
    show ?thesis
    proof (cases "find (\<lambda>g. file_id g = file_id f) (files u)")
      case None
      with r Inr show ?thesis by (simp add: g_def)
    next
      case (Some uf)
      with r Inr show ?thesis by (simp add: g_def split: if_splits)
    qed
  qed
qed

lemma verifyLoop_leaves:
  "r \<in> set_task (verifyLoop p t f b m d a) \<Longrightarrow>
     torrentHash r = torrent_hash t \<and> fileId r = file_id f \<and> fileName r = file_name f"
proof (induction k \<equiv> "Suc m - a" arbitrary: a)
  case 0
  then have "\<not> a \<le> m" by simp
  with "0.prems" show ?case by (subst (asm) verifyLoop.simps) simp
next
  case (Suc k)
  then have am: "a \<le> m" and k: "k = Suc m - (a + 1)" by simp_all
  from verifyLoop_leaves_step [OF am Suc.prems] show ?case
  proof
    assume "r = repairedAt t f a"
    then show ?thesis by (simp add: repairedAt_def)
  next
    assume "r \<in> set_task (verifyLoop p t f b m d (a + 1))"
    then show ?thesis by (rule Suc.hyps(1) [OF k])
  qed
qed

lemma repairFile_leaves:
  assumes "r \<in> set_task (repairFile p t f b m d)"
  shows "torrentHash r = torrent_hash t \<and> fileId r = file_id f \<and> fileName r = file_name f"
proof -
  define h where "h = (\<lambda>restored :: js_error + unit.
        case restored of
          Inl e \<Rightarrow> Return (repairError t f e)
        | Inr u \<Rightarrow> Sleep d (verifyLoop p t f b m d 1))"
  define g where "g = (\<lambda>deleted :: js_error + unit.
        case deleted of
          Inl e \<Rightarrow> Return (repairError t f e)
        | Inr u \<Rightarrow> bind (restoreFile (torrent_hash t) (file_id f) b) h)"
  have "repairFile p t f b m d = bind (deleteFile (torrent_hash t) (file_id f) b) g"
    unfolding repairFile_def g_def h_def by (rule refl)
  with assms obtain x where r: "r \<in> set_task (g x)"
    by (auto simp: set_task_bind)
  show ?thesis
  proof (cases x)
    case (Inl e)
    with r show ?thesis by (simp add: g_def repairError_def)
  next
    case (Inr u)
    with r obtain y where y: "r \<in> set_task (h y)"
      by (auto simp: g_def set_task_bind)
    show ?thesis
    proof (cases y)
      case (Inl e)
      with y show ?thesis by (simp add: h_def repairError_def)
    next
      case Inr2: (Inr u2)
      with y have "r \<in> set_task (verifyLoop p t f b m d 1)" by (simp add: h_def)
      then show ?thesis by (rule verifyLoop_leaves)
    qed
  qed
qed

text \<open>
  C10. In every outcome branch the result of \<^verbatim>\<open>repairFile\<close> carries the identifiers of its
  input unchanged: the torrent's hash, the file's id and the file's name, whatever the
  service answers.
\<close>

theorem repairFile_identifiers:
  "torrentHash (fst (run svc (repairFile p t f b m d) tr)) = torrent_hash t
   \<and> fileId (fst (run svc (repairFile p t f b m d) tr)) = file_id f
   \<and> fileName (fst (run svc (repairFile p t f b m d) tr)) = file_name f"
  using repairFile_leaves [OF run_in_set_task] by blast

text \<open>
  C2. If the delete action raises, or the delete action succeeds and the restore action
  raises, \<^verbatim>\<open>repairFile\<close> returns status \<^verbatim>\<open>error\<close> with the message of that failure, and
  its run contains no bundle-detail fetch.
\<close>

theorem repairFile_action_failure:
  assumes "run svc (repairFile p t f b m d) tr = (r, es)"
    and "fst (run svc (deleteFile (torrent_hash t) (file_id f) b) tr) = Inl e
         \<or> (\<exists>es1. run svc (deleteFile (torrent_hash t) (file_id f) b) tr = (Inr (), es1)
               \<and> fst (run svc (restoreFile (torrent_hash t) (file_id f) b) (tr @ es1)) = Inl e)"
  shows "status r = error \<and> message r = ''Repair process failed: '' @ errorMessage e
         \<and> detailFetches es = []"
proof -
  from repairFile_run_cases [OF assms(1)] assms(2)
  have "r = repairError t f e \<and> detailFetches es = []"
    by (elim disjE exE conjE) auto
  then show ?thesis by (simp add: repairError_def)
qed

lemma example_run_down:
  "run svcDown (repairFile exParse exTorrent exFile ''http://zurg:9999'' 3 2000) [] =
     (\<lparr>torrentHash = ''abc123'', fileId = ''7'', fileName = ''ep1.mkv'', status = error,
       message = ''Repair process failed: connect ECONNREFUSED''\<rparr>,
      [Fetched (DeleteReq ''abc123'' ''7'' ''http://zurg:9999'') (Rejected ''connect ECONNREFUSED'')])"
  by (simp add: example_defs repairFile_eval)

theorem repairFile_action_failure_witness:
  "fst (run svcDown (deleteFile (torrent_hash exTorrent) (file_id exFile) ''http://zurg:9999'') [])
     = Inl (Error ''connect ECONNREFUSED'')
   \<and> status (fst (run svcDown (repairFile exParse exTorrent exFile ''http://zurg:9999'' 3 2000) []))
     = error
   \<and> message (fst (run svcDown (repairFile exParse exTorrent exFile ''http://zurg:9999'' 3 2000) []))
     = ''Repair process failed: connect ECONNREFUSED''
   \<and> detailFetches (snd (run svcDown (repairFile exParse exTorrent exFile ''http://zurg:9999'' 3 2000) []))
     = []"
proof -
  have h: "fst (run svcDown (deleteFile (torrent_hash exTorrent) (file_id exFile) ''http://zurg:9999'') [])
     = Inl (Error ''connect ECONNREFUSED'')"
    by (simp add: example_defs deleteFile_def)
  from repairFile_action_failure [OF example_run_down disjI1, OF h] h
  show ?thesis by (simp add: example_run_down)
qed

text \<open>
  C3. If the k-th bundle-detail fetch of a run of \<^verbatim>\<open>repairFile\<close> (its k-th verification
  attempt, \<open>1 \<le> k\<close>) finds the file present with a status that is "available" up to case,
  the result is \<^verbatim>\<open>repaired\<close>, its message reports \<open>k\<close> attempts, the run has exactly
  \<open>k\<close> detail fetches, and \<open>k \<le> maxRetries\<close>.
\<close>

theorem repairFile_repaired_at:
  assumes "run svc (repairFile p t f b m d) tr = (r, es)"
    and "1 \<le> k" and "k \<le> length (detailFetches es)"
    and "foundAvailable p (file_id f) (detailFetches es ! (k - 1))"
  shows "status r = repaired
         \<and> message r = ''File repaired successfully after '' @ natToString k @ '' verification attempt(s)''
         \<and> length (detailFetches es) = k \<and> k \<le> m"
proof -
  have k1: "k - 1 < length (detailFetches es)" using assms(2,3) by simp
  then have ne: "detailFetches es \<noteq> []" by auto
  with repairFile_run_cases [OF assms(1)]
  have "verifyOutcome p t f m 1 r (detailFetches es)" by auto
  moreover have "\<not> (\<forall>e\<in>set (detailFetches es). \<not> foundAvailable p (file_id f) e)"
    using k1 assms(4) nth_mem by blast
  ultimately obtain n where n: "r = repairedAt t f (1 + n)" "1 + n \<le> m"
      "length (detailFetches es) = Suc n"
      "\<forall>j<n. \<not> foundAvailable p (file_id f) (detailFetches es ! j)"
    unfolding verifyOutcome_def by blast
  have "\<not> k - 1 < n" using n(4) assms(4) by blast
  with k1 n(3) assms(2) have "k = 1 + n" by simp
  with n show ?thesis by (simp add: repairedAt_def)
qed

lemma example_run_second:
  "run svcSecondTry (repairFile exParse exTorrent exFile ''http://zurg:9999'' 3 2000) [] =
     (\<lparr>torrentHash = ''abc123'', fileId = ''7'', fileName = ''ep1.mkv'', status = repaired,
       message = ''File repaired successfully after 2 verification attempt(s)''\<rparr>,
      [Fetched (DeleteReq ''abc123'' ''7'' ''http://zurg:9999'') (Response True ''OK'' []),
       Fetched (RestoreReq ''abc123'' ''7'' ''http://zurg:9999'') (Response True ''OK'' []),
       Slept 2000,
       Fetched (DetailReq ''abc123'' ''http://zurg:9999'') (Response True ''OK'' ''broken''),
       Slept 2000,
       Fetched (DetailReq ''abc123'' ''http://zurg:9999'') (Response True ''OK'' ''fixed'')])"
  by (simp add: example_defs repairFile_eval)

theorem repairFile_repaired_at_witness:
  "foundAvailable exParse (file_id exFile)
     (detailFetches (snd (run svcSecondTry
        (repairFile exParse exTorrent exFile ''http://zurg:9999'' 3 2000) [])) ! (2 - 1))
   \<and> status (fst (run svcSecondTry (repairFile exParse exTorrent exFile ''http://zurg:9999'' 3 2000) []))
     = repaired
   \<and> message (fst (run svcSecondTry (repairFile exParse exTorrent exFile ''http://zurg:9999'' 3 2000) []))
     = ''File repaired successfully after 2 verification attempt(s)''
   \<and> length (detailFetches (snd (run svcSecondTry
        (repairFile exParse exTorrent exFile ''http://zurg:9999'' 3 2000) []))) = 2"
proof -
  let ?es = "[Fetched (DeleteReq ''abc123'' ''7'' ''http://zurg:9999'') (Response True ''OK'' []),
       Fetched (RestoreReq ''abc123'' ''7'' ''http://zurg:9999'') (Response True ''OK'' []),
       Slept 2000,
       Fetched (DetailReq ''abc123'' ''http://zurg:9999'') (Response True ''OK'' ''broken''),
       Slept 2000,
       Fetched (DetailReq ''abc123'' ''http://zurg:9999'') (Response True ''OK'' ''fixed'')]"
  have h1: "(1::nat) \<le> 2" by simp
  have h2: "2 \<le> length (detailFetches ?es)" by simp
  have h3: "foundAvailable exParse (file_id exFile) (detailFetches ?es ! (2 - 1))"
    by (simp add: example_defs isAvailable_def toLowerCase_def lowerChar_def)
  from repairFile_repaired_at [OF example_run_second h1 h2 h3] h3
  show ?thesis by (simp add: example_run_second natToString.simps digitChar_def)
qed

lemma verify_fetch_targets:
  "run svc (verifyLoop p t f b m d a) tr = (r, es) \<Longrightarrow>
     \<forall>e\<in>set (detailFetches es). isDetailFetchOf (torrent_hash t) e"
proof (induction k \<equiv> "Suc m - a" arbitrary: a tr r es)
  case 0
  then have "\<not> a \<le> m" by simp
  with "0.prems" have "es = []" by (simp add: verify_done)
  then show ?case by simp
next
  case (Suc k)
  then have am: "a \<le> m" and k: "k = Suc m - (a + 1)" by simp_all
  define e where "e = Fetched (DetailReq (torrent_hash t) b) (svc tr (DetailReq (torrent_hash t) b))"
  have e: "isDetailFetchOf (torrent_hash t) e" by (simp add: e_def)
  show ?case
  proof (cases "foundAvailable p (file_id f) e")
    case True
    with Suc.prems am have "es = [e]" by (simp add: verify_step e_def Let_def)
    with e show ?thesis by (simp add: e_def)
  next
    case False
    have step: "run svc (verifyLoop p t f b m d a) tr =
      (if fileAbsent p (file_id f) e \<or> \<not> a < m then
        (let (v, es) = run svc (verifyLoop p t f b m d (a + 1)) (tr @ [e]) in (v, e # es))
      else
        (let (v, es) = run svc (verifyLoop p t f b m d (a + 1)) (tr @ [e, Slept d]) in (v, e # Slept d # es)))"
      using verify_step [OF am, of svc p t f b d tr] False by (simp add: e_def Let_def)
    obtain tr1 where tr1: "tr1 = (if fileAbsent p (file_id f) e \<or> \<not> a < m then tr @ [e] else tr @ [e, Slept d])"
      by simp
    obtain r1 es1 where run1: "run svc (verifyLoop p t f b m d (a + 1)) tr1 = (r1, es1)"
      by (cases "run svc (verifyLoop p t f b m d (a + 1)) tr1")
    have es: "detailFetches es = e # detailFetches es1"
      using Suc.prems step run1 tr1 by (auto simp: e_def split: if_splits)
    from Suc.hyps(1) [OF k run1] e es show ?thesis by simp
  qed
qed

lemma repairFile_fetch_targets:
  assumes "run svc (repairFile p t f b m d) tr = (r, es)"
  shows "\<forall>e\<in>set (detailFetches es). isDetailFetchOf (torrent_hash t) e"
proof -
  obtain x es1 where d: "run svc (deleteFile (torrent_hash t) (file_id f) b) tr = (x, es1)"
    by (cases "run svc (deleteFile (torrent_hash t) (file_id f) b) tr")
  have d1: "detailFetches es1 = []" using d
    by (auto simp: deleteFile_def Let_def split: fetch_result.splits if_splits)
  show ?thesis
  proof (cases x)
    case (Inl e)
    with d assms have "es = es1" by (simp add: repairFile_def run_bind)
    with d1 show ?thesis by simp
  next
    case (Inr u)
    obtain y es2 where rs: "run svc (restoreFile (torrent_hash t) (file_id f) b) (tr @ es1) = (y, es2)"
      by (cases "run svc (restoreFile (torrent_hash t) (file_id f) b) (tr @ es1)")
    have d2: "detailFetches es2 = []" using rs
      by (auto simp: restoreFile_def Let_def split: fetch_result.splits if_splits)
    show ?thesis
    proof (cases y)
      case (Inl e)
      with d Inr rs assms have "es = es1 @ es2" by (simp add: repairFile_def run_bind)
      with d1 d2 show ?thesis by (simp add: detailFetches_def)
    next
      case Inr2: (Inr u2)
      obtain es3 where v: "run svc (verifyLoop p t f b m d 1) (tr @ es1 @ es2 @ [Slept d]) = (r, es3)"
        and es: "es = es1 @ es2 @ Slept d # es3"
        using d Inr rs Inr2 assms
        by (auto simp: repairFile_def run_bind Let_def split: prod.splits)
      have "detailFetches es = detailFetches es3" using es d1 d2 by (simp add: detailFetches_def)
      with verify_fetch_targets [OF v] show ?thesis by simp
    qed
  qed
qed

text \<open>
  C5. If no bundle-detail fetch of a run of \<^verbatim>\<open>repairFile\<close> finds the file available (each
  one failed, or did not list the file, or listed it with another status), then the run has
  at most \<open>maxRetries\<close> detail fetches, all of them for the torrent of the target. When
  the verification loop was reached, that is, when the delete and the restore action
  succeeded, the result is \<^verbatim>\<open>failed\<close>, its message states \<open>maxRetries\<close> attempts, and
  the run has exactly \<open>maxRetries\<close> detail fetches: the attempts the message states were
  made. Otherwise the delete or the restore action raised, no attempt was made, and the
  result is \<^verbatim>\<open>error\<close>.
\<close>

theorem repairFile_exhausted:
  assumes "run svc (repairFile p t f b m d) tr = (r, es)"
    and "\<forall>e\<in>set (detailFetches es). \<not> foundAvailable p (file_id f) e"
  shows "length (detailFetches es) \<le> m
         \<and> (\<forall>e\<in>set (detailFetches es). isDetailFetchOf (torrent_hash t) e)
         \<and> ((\<exists>es1. run svc (deleteFile (torrent_hash t) (file_id f) b) tr = (Inr (), es1)
                \<and> fst (run svc (restoreFile (torrent_hash t) (file_id f) b) (tr @ es1)) = Inr ())
              \<longrightarrow> status r = failed
                  \<and> message r = ''File repair failed - still not available after ''
                       @ natToString m @ '' verification attempts''
                  \<and> length (detailFetches es) = m)
         \<and> (\<not> (\<exists>es1. run svc (deleteFile (torrent_hash t) (file_id f) b) tr = (Inr (), es1)
                \<and> fst (run svc (restoreFile (torrent_hash t) (file_id f) b) (tr @ es1)) = Inr ())
              \<longrightarrow> status r = error \<and> detailFetches es = [])"
proof -
  let ?ok = "\<exists>es1. run svc (deleteFile (torrent_hash t) (file_id f) b) tr = (Inr (), es1)
                \<and> fst (run svc (restoreFile (torrent_hash t) (file_id f) b) (tr @ es1)) = Inr ()"
  have none: "\<not> (\<exists>n. length (detailFetches es) = Suc n
      \<and> foundAvailable p (file_id f) (detailFetches es ! n))"
    using assms(2) by (metis lessI nth_mem)
  have targets: "\<forall>e\<in>set (detailFetches es). isDetailFetchOf (torrent_hash t) e"
    using assms(1) by (rule repairFile_fetch_targets)
  from repairFile_run_cases [OF assms(1)] consider
    (err) e where "r = repairError t f e" "detailFetches es = []"
      "fst (run svc (deleteFile (torrent_hash t) (file_id f) b) tr) = Inl e
         \<or> (\<exists>es1. run svc (deleteFile (torrent_hash t) (file_id f) b) tr = (Inr (), es1)
               \<and> fst (run svc (restoreFile (torrent_hash t) (file_id f) b) (tr @ es1)) = Inl e)"
  | (ver) "?ok" "verifyOutcome p t f m 1 r (detailFetches es)"
    by auto
  then show ?thesis
  proof cases
    case err
    from err(3) have "\<not> ?ok" by auto
    with err(1,2) targets show ?thesis by (simp add: repairError_def)
  next
    case ver
    from ver(2) none have "r = exhausted t f m \<and> length (detailFetches es) = Suc m - 1"
      unfolding verifyOutcome_def by blast
    with ver(1) targets show ?thesis by (simp add: exhausted_def)
  qed
qed

lemma example_run_never:
  "run svcNeverFixed (repairFile exParse exTorrent exFile ''http://zurg:9999'' 2 2000) [] =
     (\<lparr>torrentHash = ''abc123'', fileId = ''7'', fileName = ''ep1.mkv'', status = failed,
       message = ''File repair failed - still not available after 2 verification attempts''\<rparr>,
      [Fetched (DeleteReq ''abc123'' ''7'' ''http://zurg:9999'') (Response True ''OK'' []),
       Fetched (RestoreReq ''abc123'' ''7'' ''http://zurg:9999'') (Response True ''OK'' []),
       Slept 2000,
       Fetched (DetailReq ''abc123'' ''http://zurg:9999'') (Response True ''OK'' ''broken''),
       Slept 2000,
       Fetched (DetailReq ''abc123'' ''http://zurg:9999'') (Response True ''OK'' ''broken'')])"
  by (simp add: example_defs repairFile_eval)

theorem repairFile_exhausted_witness:
  "status (fst (run svcNeverFixed (repairFile exParse exTorrent exFile ''http://zurg:9999'' 2 2000) []))
     = failed
   \<and> message (fst (run svcNeverFixed (repairFile exParse exTorrent exFile ''http://zurg:9999'' 2 2000) []))
     = ''File repair failed - still not available after 2 verification attempts''
   \<and> length (detailFetches (snd (run svcNeverFixed
        (repairFile exParse exTorrent exFile ''http://zurg:9999'' 2 2000) []))) = 2"
proof -
  let ?es = "[Fetched (DeleteReq ''abc123'' ''7'' ''http://zurg:9999'') (Response True ''OK'' []),
       Fetched (RestoreReq ''abc123'' ''7'' ''http://zurg:9999'') (Response True ''OK'' []),
       Slept 2000,
       Fetched (DetailReq ''abc123'' ''http://zurg:9999'') (Response True ''OK'' ''broken''),
       Slept 2000,
       Fetched (DetailReq ''abc123'' ''http://zurg:9999'') (Response True ''OK'' ''broken'')]"
  have h1: "\<exists>es1. run svcNeverFixed
      (deleteFile (torrent_hash exTorrent) (file_id exFile) ''http://zurg:9999'') [] = (Inr (), es1)
     \<and> fst (run svcNeverFixed
      (restoreFile (torrent_hash exTorrent) (file_id exFile) ''http://zurg:9999'') ([] @ es1))
      = Inr ()"
    by (simp add: example_defs deleteFile_def restoreFile_def)
  have h2: "\<forall>e\<in>set (detailFetches ?es). \<not> foundAvailable exParse (file_id exFile) e"
    by (simp add: example_defs isAvailable_def toLowerCase_def lowerChar_def)
  from repairFile_exhausted [OF example_run_never h2] h1
  show ?thesis by (simp add: example_run_never natToString.simps digitChar_def)
qed

text \<open>
  C6. The claim: between every two consecutive verification attempts exactly one wait of
  the retry delay occurs, also when the attempt found the file absent. The code leaves the
  loop body with \<^verbatim>\<open>continue\<close> when the file is absent, before the wait at the end of the
  body. With two attempts, both of which find the file absent, the two detail fetches
  follow each other with no wait between them.
\<close>

theorem repairFile_absent_no_wait:
  "run svcFileGone (repairFile exParse exTorrent exFile ''http://zurg:9999'' 2 2000) [] =
     (\<lparr>torrentHash = ''abc123'', fileId = ''7'', fileName = ''ep1.mkv'', status = failed,
       message = ''File repair failed - still not available after 2 verification attempts''\<rparr>,
      [Fetched (DeleteReq ''abc123'' ''7'' ''http://zurg:9999'') (Response True ''OK'' ''gone''),
       Fetched (RestoreReq ''abc123'' ''7'' ''http://zurg:9999'') (Response True ''OK'' ''gone''),
       Slept 2000,
       Fetched (DetailReq ''abc123'' ''http://zurg:9999'') (Response True ''OK'' ''gone''),
       Fetched (DetailReq ''abc123'' ''http://zurg:9999'') (Response True ''OK'' ''gone'')])
   \<and> \<not> oneWaitBetweenAttempts 2000
         (snd (run svcFileGone (repairFile exParse exTorrent exFile ''http://zurg:9999'' 2 2000) []))"
  by (simp add: example_defs repairFile_eval)

section \<open>Concurrent batches: what a run is\<close>

lemma run_yields: "run svc t tr = (v, es) \<Longrightarrow> yields t es v"
proof (induction t arbitrary: tr v es)
  case (Return x)
  then show ?case by (auto intro: yields.intros)
next
  case (Fetch q k)
  obtain v' es' where r: "run svc (k (svc tr q)) (tr @ [Fetched q (svc tr q)]) = (v', es')"
    by (cases "run svc (k (svc tr q)) (tr @ [Fetched q (svc tr q)])")
  with Fetch.prems have "v = v'" "es = Fetched q (svc tr q) # es'" by (simp_all add: Let_def)
  moreover have "yields (k (svc tr q)) es' v'" using Fetch.IH r by blast
  ultimately show ?case by (auto intro: yields.intros)
next
  case (Sleep ms t)
  obtain v' es' where r: "run svc t (tr @ [Slept ms]) = (v', es')"
    by (cases "run svc t (tr @ [Slept ms])")
  with Sleep.prems have "v = v'" "es = Slept ms # es'" by simp_all
  moreover have "yields t es' v'" using Sleep.IH r by blast
  ultimately show ?case by (auto intro: yields.intros)
qed

lemma yields_set_task: "yields t es v \<Longrightarrow> v \<in> set_task t"
  by (induction rule: yields.induct) auto

lemma concat_update_mset:
  "i < length ess \<Longrightarrow> mset (concat (ess[i := e # ess ! i])) = add_mset e (mset (concat ess))"
proof (induction ess arbitrary: i)
  case Nil
  then show ?case by simp
next
  case (Cons a ess)
  then show ?case by (cases i) simp_all
qed

text \<open>What a run of concurrent tasks is: each task yields its value on its own events, and
  the events of the run are those of the tasks, interleaved.\<close>

lemma advance_yields:
  "advance svc sched tr ts = (ts', es) \<Longrightarrow>
     length ts' = length ts \<and>
     (\<exists>ess. length ess = length ts \<and> mset es = mset (concat ess) \<and>
        (\<forall>i<length ts. \<forall>es2 v. yields (ts' ! i) es2 v \<longrightarrow> yields (ts ! i) (ess ! i @ es2) v))"
proof (induction sched arbitrary: tr ts ts' es)
  case Nil
  then have "ts' = ts" "es = []" by simp_all
  then have "length (replicate (length ts) ([]::trace)) = length ts \<and>
      mset es = mset (concat (replicate (length ts) ([]::trace))) \<and>
      (\<forall>i<length ts. \<forall>es2 v. yields (ts' ! i) es2 v \<longrightarrow>
         yields (ts ! i) (replicate (length ts) ([]::trace) ! i @ es2) v)"
    by simp
  then show ?case using \<open>ts' = ts\<close> by blast
next
  case (Cons i sched)
  show ?case
  proof (cases "i < length ts")
    case False
    with Cons.prems have "advance svc sched tr ts = (ts', es)" by simp
    then show ?thesis by (rule Cons.IH)
  next
    case True
    show ?thesis
    proof (cases "ts ! i")
      case (Return v)
      with True Cons.prems have "advance svc sched tr ts = (ts', es)" by simp
      then show ?thesis by (rule Cons.IH)
    next
      case (Fetch q k)
      define e where "e = Fetched q (svc tr q)"
      obtain es' where a: "advance svc sched (tr @ [e]) (ts[i := k (svc tr q)]) = (ts', es')"
        and es: "es = e # es'"
        using True Fetch Cons.prems by (auto simp: Let_def e_def split: prod.splits)
      from Cons.IH [OF a] obtain ess where len: "length ts' = length ts"
        and ess: "length ess = length ts" "mset es' = mset (concat ess)"
        and y: "\<forall>j<length ts. \<forall>es2 v. yields (ts' ! j) es2 v \<longrightarrow>
                  yields ((ts[i := k (svc tr q)]) ! j) (ess ! j @ es2) v"
        by auto
      let ?ess = "ess[i := e # ess ! i]"
      have "mset es = mset (concat ?ess)"
        using es ess True by (simp add: concat_update_mset)
      moreover have "\<forall>j<length ts. \<forall>es2 v. yields (ts' ! j) es2 v \<longrightarrow>
                  yields (ts ! j) (?ess ! j @ es2) v"
      proof (intro allI impI)
        fix j es2 v assume j: "j < length ts" and yj: "yields (ts' ! j) es2 v"
        from y j yj have yy: "yields ((ts[i := k (svc tr q)]) ! j) (ess ! j @ es2) v" by blast
        show "yields (ts ! j) (?ess ! j @ es2) v"
        proof (cases "j = i")
          case True
          with yy j have "yields (k (svc tr q)) (ess ! i @ es2) v" by simp
          then have "yields (Fetch q k) (e # ess ! i @ es2) v"
            unfolding e_def by (rule yields.intros)
          with True Fetch j ess show ?thesis by simp
        next
          case False
          with yy j ess show ?thesis by simp
        qed
      qed
      ultimately show ?thesis using len ess(1) by (intro conjI exI [of _ ?ess]) simp_all
    next
      case (Sleep ms t)
      define e where "e = Slept ms"
      obtain es' where a: "advance svc sched (tr @ [e]) (ts[i := t]) = (ts', es')"
        and es: "es = e # es'"
        using True Sleep Cons.prems by (auto simp: Let_def e_def split: prod.splits)
      from Cons.IH [OF a] obtain ess where len: "length ts' = length ts"
        and ess: "length ess = length ts" "mset es' = mset (concat ess)"
        and y: "\<forall>j<length ts. \<forall>es2 v. yields (ts' ! j) es2 v \<longrightarrow>
                  yields ((ts[i := t]) ! j) (ess ! j @ es2) v"
        by auto
      let ?ess = "ess[i := e # ess ! i]"
      have "mset es = mset (concat ?ess)"
        using es ess True by (simp add: concat_update_mset)
      moreover have "\<forall>j<length ts. \<forall>es2 v. yields (ts' ! j) es2 v \<longrightarrow>
                  yields (ts ! j) (?ess ! j @ es2) v"
      proof (intro allI impI)
        fix j es2 v assume j: "j < length ts" and yj: "yields (ts' ! j) es2 v"
        from y j yj have yy: "yields ((ts[i := t]) ! j) (ess ! j @ es2) v" by blast
        show "yields (ts ! j) (?ess ! j @ es2) v"
        proof (cases "j = i")
          case True
          with yy j have "yields t (ess ! i @ es2) v" by simp
          then have "yields (Sleep ms t) (e # ess ! i @ es2) v"
            unfolding e_def by (rule yields.intros)
          with True Sleep j ess show ?thesis by simp
        next
          case False
          with yy j ess show ?thesis by simp
        qed
      qed
      ultimately show ?thesis using len ess(1) by (intro conjI exI [of _ ?ess]) simp_all
    qed
  qed
qed

lemma runAll_yields:
  "runAll svc tr ts = (vs, es) \<Longrightarrow>
     length vs = length ts \<and>
     (\<exists>ess. length ess = length ts \<and> es = concat ess \<and>
        (\<forall>i<length ts. yields (ts ! i) (ess ! i) (vs ! i)))"
proof (induction ts arbitrary: tr vs es)
  case Nil
  then show ?case by simp
next
  case (Cons t ts)
  obtain v es1 where r: "run svc t tr = (v, es1)" by (cases "run svc t tr")
  obtain vs' es2 where ra: "runAll svc (tr @ es1) ts = (vs', es2)"
    by (cases "runAll svc (tr @ es1) ts")
  from Cons.prems r ra have vs: "vs = v # vs'" and es: "es = es1 @ es2" by simp_all
  from Cons.IH [OF ra] obtain ess where len: "length vs' = length ts"
    and ess: "length ess = length ts" "es2 = concat ess"
    and y: "\<forall>i<length ts. yields (ts ! i) (ess ! i) (vs' ! i)"
    by auto
  have "\<forall>i<length (t # ts). yields ((t # ts) ! i) ((es1 # ess) ! i) (vs ! i)"
    using y run_yields [OF r] vs by (auto simp: nth_Cons split: nat.splits)
  then show ?case using vs es len ess by (intro conjI exI [of _ "es1 # ess"]) simp_all
qed

lemma concat_map2_append_mset:
  "length xs = length ys \<Longrightarrow>
     mset (concat (map2 (@) xs ys)) = mset (concat xs) + mset (concat ys)"
  by (induction xs ys rule: list_induct2) simp_all

lemma Promise_allSettled_yields:
  assumes "Promise_allSettled svc sched tr promises = (results, es)"
  shows "length results = length promises \<and>
     (\<exists>ess. length ess = length promises \<and> mset es = mset (concat ess) \<and>
        (\<forall>i<length promises. \<exists>v. yields (promises ! i) (ess ! i) v \<and> results ! i = settle v))"
proof -
  obtain ts es1 where a: "advance svc sched tr promises = (ts, es1)"
    by (cases "advance svc sched tr promises")
  obtain vs es2 where r: "runAll svc (tr @ es1) ts = (vs, es2)"
    by (cases "runAll svc (tr @ es1) ts")
  from assms a r have res: "results = map settle vs" and es: "es = es1 @ es2"
    by (simp_all add: Promise_allSettled_def)
  from advance_yields [OF a] obtain ess1 where len1: "length ts = length promises"
    and ess1: "length ess1 = length promises" "mset es1 = mset (concat ess1)"
    and y1: "\<forall>i<length promises. \<forall>es2 v. yields (ts ! i) es2 v \<longrightarrow>
               yields (promises ! i) (ess1 ! i @ es2) v"
    by auto
  from runAll_yields [OF r] obtain ess2 where len2: "length vs = length ts"
    and ess2: "length ess2 = length ts" "es2 = concat ess2"
    and y2: "\<forall>i<length ts. yields (ts ! i) (ess2 ! i) (vs ! i)"
    by auto
  let ?ess = "map2 (@) ess1 ess2"
  have m: "mset (concat ?ess) = mset (concat ess1) + mset (concat ess2)"
    using ess1(1) ess2(1) len1 by (simp add: concat_map2_append_mset)
  have "mset es = mset (concat ?ess)" using es ess1 ess2 m by simp
  moreover have "\<forall>i<length promises. \<exists>v. yields (promises ! i) (?ess ! i) v \<and> results ! i = settle v"
  proof (intro allI impI)
    fix i assume i: "i < length promises"
    with y2 len1 have "yields (ts ! i) (ess2 ! i) (vs ! i)" by simp
    with y1 i have "yields (promises ! i) (ess1 ! i @ ess2 ! i) (vs ! i)" by blast
    moreover have "?ess ! i = ess1 ! i @ ess2 ! i" "results ! i = settle (vs ! i)"
      using i len1 len2 ess1 ess2 res by simp_all
    ultimately show "\<exists>v. yields (promises ! i) (?ess ! i) v \<and> results ! i = settle v"
      by auto
  qed
  ultimately show ?thesis using res len1 len2 ess1 ess2 by (intro conjI exI [of _ ?ess]) simp_all
qed

section \<open>Repairing many files\<close>

lemma foldl_pushRepair_fulfilled:
  assumes "list_all2 (\<lambda>s v. s = Fulfilled v) ss vs" and "length idx = length ss"
  shows "foldl (pushRepair chunk) results (zip ss idx) = results @ vs"
  using assms
proof (induction ss vs arbitrary: idx results rule: list_all2_induct)
  case Nil
  then show ?case by simp
next
  case (Cons s ss v vs)
  then obtain j idx' where "idx = j # idx'" by (cases idx) auto
  with Cons show ?case by simp
qed

lemma repair_chunk_results:
  assumes "Promise_allSettled svc sched tr0
      (map (\<lambda>(torrent, file). map_task Inr (repairFile p torrent file b m d)) chunk) = (ss, es)"
  shows "\<exists>vs. list_all2 (\<lambda>s v. s = Fulfilled v) ss vs \<and> list_all2 resultFor chunk vs"
proof -
  let ?promises = "map (\<lambda>(torrent, file). map_task Inr (repairFile p torrent file b m d)) chunk"
  from Promise_allSettled_yields [OF assms] obtain ess where
    len: "length ss = length chunk"
    and y: "\<forall>i<length chunk. \<exists>v. yields (?promises ! i) (ess ! i) v \<and> ss ! i = settle v"
    by auto
  have each: "\<exists>r. ss ! i = Fulfilled r \<and> resultFor (chunk ! i) r" if i: "i < length chunk" for i
  proof -
    from y i obtain v where v: "yields (?promises ! i) (ess ! i) v" "ss ! i = settle v" by blast
    obtain t f where tf: "chunk ! i = (t, f)" by (cases "chunk ! i")
    from v(1) i tf have "v \<in> set_task (map_task Inr (repairFile p t f b m d))"
      by (auto dest: yields_set_task)
    then obtain r where r: "v = Inr r" "r \<in> set_task (repairFile p t f b m d)"
      by (auto simp: task.set_map)
    from repairFile_leaves [OF r(2)] tf have "resultFor (chunk ! i) r"
      by (simp add: resultFor_def)
    with v(2) r(1) show ?thesis by simp
  qed
  define vs where "vs = map (\<lambda>i. SOME r. ss ! i = Fulfilled r \<and> resultFor (chunk ! i) r) [0..<length chunk]"
  have vsi: "ss ! i = Fulfilled (vs ! i) \<and> resultFor (chunk ! i) (vs ! i)" if "i < length chunk" for i
    using someI_ex [OF each [OF that]] that by (simp add: vs_def)
  have "list_all2 (\<lambda>s v. s = Fulfilled v) ss vs"
    using vsi len by (simp add: list_all2_conv_all_nth vs_def)
  moreover have "list_all2 resultFor chunk vs"
    using vsi by (simp add: list_all2_conv_all_nth vs_def)
  ultimately show ?thesis by blast
qed

lemma repairLoop_returns:
  assumes "0 < c" and "list_all2 resultFor (take i repairs) results"
  shows "\<exists>rs es'. repairLoop p svc scheds tr repairs b c m d i results es = Some (rs, es')
           \<and> list_all2 resultFor repairs rs"
  using assms(2)
proof (induction k \<equiv> "length repairs - i" arbitrary: i results es rule: less_induct)
  case less
  show ?case
  proof (cases "i < length repairs")
    case False
    then have "repairLoop p svc scheds tr repairs b c m d i results es = Some (results, es)"
      by (subst repairLoop.simps) simp
    moreover from False less.prems have "list_all2 resultFor repairs results" by simp
    ultimately show ?thesis by blast
  next
    case True
    define chunk where "chunk = take c (drop i repairs)"
    define promises where
      "promises = map (\<lambda>(torrent, file).
          (map_task Inr (repairFile p torrent file b m d) :: (js_error + RepairResult) task)) chunk"
    obtain ss es1 where s: "Promise_allSettled svc (scheds i) (tr @ es) promises = (ss, es1)"
      by (cases "Promise_allSettled svc (scheds i) (tr @ es) promises")
    from repair_chunk_results [OF s [unfolded promises_def]] obtain vs where
      vs: "list_all2 (\<lambda>s v. s = Fulfilled v) ss vs" "list_all2 resultFor chunk vs"
      by blast
    have push: "foldl (pushRepair chunk) results (zip ss [0..<length ss]) = results @ vs"
      using vs(1) by (rule foldl_pushRepair_fulfilled) simp
    have step: "repairLoop p svc scheds tr repairs b c m d i results es =
        repairLoop p svc scheds tr repairs b c m d (i + c) (results @ vs) (es @ es1)"
      using True s push
      by (subst repairLoop.simps) (simp add: Let_def chunk_def [symmetric] promises_def [symmetric])
    have "take (i + c) repairs = take i repairs @ chunk"
      by (simp add: chunk_def take_add)
    with less.prems vs(2) have inv: "list_all2 resultFor (take (i + c) repairs) (results @ vs)"
      by (simp add: list_all2_appendI)
    have "length repairs - (i + c) < length repairs - i" using True assms(1) by simp
    from less.hyps [OF this inv, of "es @ es1"] step show ?thesis by simp
  qed
qed

lemma repairLoop_limit_0:
  assumes "repairLoop p svc scheds tr repairs b c m d i results es = Some y"
  shows "c = 0 \<longrightarrow> \<not> i < length repairs"
proof (rule repairLoop.raw_induct
        [where P = "\<lambda>p svc scheds tr repairs b c m d i results es y. c = 0 \<longrightarrow> \<not> i < length repairs",
         OF _ assms], goal_cases)
  case (1 rl p svc scheds tr repairs b c m d i results es y)
  show ?case
  proof (intro impI notI)
    assume c: "c = 0" and lt: "i < length repairs"
    from 1(2) lt c obtain results' es' where
      "rl p svc scheds tr repairs b c m d i results' es' = Some y"
      by (simp add: Let_def)
    from 1(1) [OF this] c lt show False by simp
  qed
qed

text \<open>
  C1, as amended. For a concurrency limit of at least 1, \<^verbatim>\<open>repairFilesConcurrently\<close>
  returns, with every schedule of the batches and every service, exactly one result per
  target, and the result at index \<open>i\<close> carries the torrent hash and the file id of the
  target at index \<open>i\<close>.
\<close>

theorem repairFilesConcurrently_results:
  assumes "1 \<le> concurrencyLimit"
  shows "\<exists>rs es. repairFilesConcurrently p svc scheds tr repairs b concurrencyLimit m d = Some (rs, es)
           \<and> length rs = length repairs
           \<and> (\<forall>i<length repairs.
                 torrentHash (rs ! i) = torrent_hash (fst (repairs ! i))
                 \<and> fileId (rs ! i) = file_id (snd (repairs ! i)))"
proof -
  have "0 < concurrencyLimit" using assms by simp
  moreover have "list_all2 resultFor (take 0 repairs) []" by simp
  ultimately obtain rs es where
    "repairLoop p svc scheds tr repairs b concurrencyLimit m d 0 [] [] = Some (rs, es)"
    "list_all2 resultFor repairs rs"
    using repairLoop_returns by blast
  then show ?thesis
    unfolding repairFilesConcurrently_def
    by (auto simp: list_all2_conv_all_nth resultFor_def)
qed

theorem repairFilesConcurrently_results_witness:
  "\<exists>rs es. repairFilesConcurrently exParse svcTwo exSched []
       [(exTorrent, exFile), (exTorrentB, exFileB)] ''http://zurg:9999'' 2 3 2000 = Some (rs, es)
     \<and> length rs = 2
     \<and> torrentHash (rs ! 0) = ''abc123'' \<and> fileId (rs ! 0) = ''7''
     \<and> torrentHash (rs ! 1) = ''def456'' \<and> fileId (rs ! 1) = ''3''"
proof -
  have h: "(1::nat) \<le> 2" by simp
  from repairFilesConcurrently_results [OF h, of exParse svcTwo exSched "[]"
      "[(exTorrent, exFile), (exTorrentB, exFileB)]" "''http://zurg:9999''" 3 2000]
  obtain rs es where r: "repairFilesConcurrently exParse svcTwo exSched []
       [(exTorrent, exFile), (exTorrentB, exFileB)] ''http://zurg:9999'' 2 3 2000 = Some (rs, es)"
    "length rs = 2"
    and a: "\<forall>i<2. torrentHash (rs ! i) = torrent_hash (fst ([(exTorrent, exFile), (exTorrentB, exFileB)] ! i))
                 \<and> fileId (rs ! i) = file_id (snd ([(exTorrent, exFile), (exTorrentB, exFileB)] ! i))"
    by auto
  from a have "torrentHash (rs ! 0) = ''abc123'' \<and> fileId (rs ! 0) = ''7''"
    by (simp add: exTorrent_def exFile_def)
  moreover from a have "torrentHash (rs ! 1) = ''def456'' \<and> fileId (rs ! 1) = ''3''"
    by (simp add: exTorrentB_def exFileB_def)
  ultimately show ?thesis using r by blast
qed

text \<open>
  C1 as stated covers every concurrency limit. With the limit 0 and one target the
  loop \<^verbatim>\<open>for (let i = 0; i < repairs.length; i += concurrencyLimit)\<close> never advances, and
  the function returns nothing.
\<close>

theorem repairFilesConcurrently_limit_0:
  "repairFilesConcurrently exParse svcDown exSched [] [(exTorrent, exFile)] ''http://zurg:9999''
     0 3 2000 = None"
proof (cases "repairFilesConcurrently exParse svcDown exSched [] [(exTorrent, exFile)]
     ''http://zurg:9999'' 0 3 2000")
  case None
  then show ?thesis .
next
  case (Some y)
  then have "(0::nat) = 0 \<longrightarrow> \<not> 0 < length [(exTorrent, exFile)]"
    unfolding repairFilesConcurrently_def by (rule repairLoop_limit_0)
  then show ?thesis by simp
qed

section \<open>Fetching the details of all torrents\<close>

inductive_cases yields_ReturnE: "yields (Return x) es v"
inductive_cases yields_FetchE: "yields (Fetch q k) es v"

lemma yields_getDetailedTorrent:
  assumes "yields (getDetailedTorrent p t b) es v"
  shows "\<exists>r. es = [Fetched (DetailReq (torrent_hash t) b) r] \<and>
           pushDetailed torrents [] (settle v, i) =
             (if i < length torrents
              then (if failedFetch r then [assumeBroken (torrents ! i)]
                    else detailOutcome p t r)
              else [])"
proof -
  from assms obtain r es' where es: "es = Fetched (DetailReq (torrent_hash t) b) r # es'"
    and y: "yields (bind (case r of
         Rejected m \<Rightarrow> Return (Inl (Error m))
       | Response ok statusText body \<Rightarrow>
           if \<not> ok then
             Return (Inl (Error (''Failed to fetch torrent details page for hash '' @ torrent_hash t
               @ '' from '' @ b @ '': '' @ statusText)))
           else Return (Inr body))
       (\<lambda>detailHtml.
       case detailHtml of
         Inl e \<Rightarrow> Return (Inl e)
       | Inr html \<Rightarrow>
           Return (Inr \<lparr>torrent_name = torrent_name t, torrent_hash = torrent_hash t,
                        torrent_size = torrent_size t, torrent_date = torrent_date t,
                        files = p html\<rparr>))) es' v"
    unfolding getDetailedTorrent_def getTorrentDetailsPageHtml_def
    by (auto elim: yields_FetchE)
  show ?thesis
  proof (cases r)
    case (Rejected m)
    with y have "es' = []" "v = Inl (Error m)" by (auto elim: yields_ReturnE)
    with es Rejected show ?thesis by simp
  next
    case (Response ok st html)
    show ?thesis
    proof (cases ok)
      case False
      with y Response have "es' = []" "\<exists>e. v = Inl e" by (auto elim: yields_ReturnE)
      with es Response False show ?thesis by auto
    next
      case True
      with y Response have "es' = []" "v = Inr (detailedOf p t html)"
        by (auto elim: yields_ReturnE simp: detailedOf_def)
      with es Response True show ?thesis by (simp add: detailOutcome_def)
    qed
  qed
qed

lemma pushDetailed_outcome:
  assumes "yields (getDetailedTorrent p (torrents ! i) b) es v" and "i < length torrents"
  shows "\<exists>r. es = [Fetched (DetailReq (torrent_hash (torrents ! i)) b) r] \<and>
           pushDetailed torrents [] (settle v, i) = detailOutcome p (torrents ! i) r"
proof -
  from yields_getDetailedTorrent [OF assms(1), of torrents i] obtain r where
    r: "es = [Fetched (DetailReq (torrent_hash (torrents ! i)) b) r]"
      "pushDetailed torrents [] (settle v, i) =
         (if failedFetch r then [assumeBroken (torrents ! i)] else detailOutcome p (torrents ! i) r)"
    using assms(2) by auto
  have "failedFetch r \<Longrightarrow> detailOutcome p (torrents ! i) r = [assumeBroken (torrents ! i)]"
    by (cases r) (simp_all add: detailOutcome_def)
  with r show ?thesis by auto
qed

lemma pushDetailed_append:
  "pushDetailed torrents acc x = acc @ pushDetailed torrents [] x"
  by (cases x) (simp split: settled.splits)

lemma foldl_pushDetailed:
  "foldl (pushDetailed torrents) acc xs = acc @ concat (map (pushDetailed torrents []) xs)"
proof (induction xs arbitrary: acc)
  case Nil
  then show ?case by simp
next
  case (Cons x xs)
  have "foldl (pushDetailed torrents) acc (x # xs) =
      foldl (pushDetailed torrents) (acc @ pushDetailed torrents [] x) xs"
    using pushDetailed_append [of torrents acc x] by simp
  then show ?case using Cons.IH by simp
qed

lemma concat_singletons:
  assumes "\<forall>i<length ess. ess ! i = [g i]"
  shows "concat ess = map g [0..<length ess]"
proof -
  have "ess = map (\<lambda>i. [g i]) [0..<length ess]"
    using assms by (intro nth_equalityI) simp_all
  then have "concat ess = concat (map (\<lambda>i. [g i]) [0..<length ess])" by simp
  also have "\<dots> = map g [0..<length ess]" by (induction "[0..<length ess]") simp_all
  finally show ?thesis .
qed

lemma map2_conv_upt:
  "length xs = length ys \<Longrightarrow> map2 f xs ys = map (\<lambda>i. f (xs ! i) (ys ! i)) [0..<length xs]"
  by (intro nth_equalityI) simp_all

text \<open>
  One batch: every torrent of the batch has one fetch of its detail page, in some order, and
  the batch returns what each torrent's fetch result gives, in the order of the torrents.
\<close>

lemma processBatch_outcome:
  assumes "processBatch p svc sched tr torrents b = (ds, es)"
  shows "\<exists>rs. length rs = length torrents
           \<and> mset es = mset (map2 (\<lambda>t r. Fetched (DetailReq (torrent_hash t) b) r) torrents rs)
           \<and> ds = concat (map2 (detailOutcome p) torrents rs)"
proof -
  let ?n = "length torrents"
  let ?promises = "map (\<lambda>torrent. getDetailedTorrent p torrent b) torrents"
  obtain results where s: "Promise_allSettled svc sched tr ?promises = (results, es)"
    and ds: "ds = foldl (pushDetailed torrents) [] (zip results [0..<length results])"
    using assms by (auto simp: processBatch_def Let_def split: prod.splits)
  from Promise_allSettled_yields [OF s] obtain ess where
    len: "length results = ?n" "length ess = ?n"
    and m: "mset es = mset (concat ess)"
    and y: "\<forall>i<?n. \<exists>v. yields (?promises ! i) (ess ! i) v \<and> results ! i = settle v"
    by auto
  have "\<forall>i<?n. \<exists>r. ess ! i = [Fetched (DetailReq (torrent_hash (torrents ! i)) b) r] \<and>
           pushDetailed torrents [] (results ! i, i) = detailOutcome p (torrents ! i) r"
  proof (intro allI impI)
    fix i assume i: "i < ?n"
    with y obtain v where "yields (getDetailedTorrent p (torrents ! i) b) (ess ! i) v"
      "results ! i = settle v" by auto
    with pushDetailed_outcome [OF this(1) i]
    show "\<exists>r. ess ! i = [Fetched (DetailReq (torrent_hash (torrents ! i)) b) r] \<and>
           pushDetailed torrents [] (results ! i, i) = detailOutcome p (torrents ! i) r"
      by simp
  qed
  then obtain f where f: "\<forall>i<?n. ess ! i = [Fetched (DetailReq (torrent_hash (torrents ! i)) b) (f i)]
       \<and> pushDetailed torrents [] (results ! i, i) = detailOutcome p (torrents ! i) (f i)"
    by metis
  define rs where "rs = map f [0..<?n]"
  have lrs: "length rs = ?n" by (simp add: rs_def)
  have "concat ess = map (\<lambda>i. Fetched (DetailReq (torrent_hash (torrents ! i)) b) (f i)) [0..<length ess]"
    using f len by (intro concat_singletons) simp
  also have "\<dots> = map2 (\<lambda>t r. Fetched (DetailReq (torrent_hash t) b) r) torrents rs"
    using len lrs by (simp add: map2_conv_upt rs_def)
  finally have ev: "mset es = mset (map2 (\<lambda>t r. Fetched (DetailReq (torrent_hash t) b) r) torrents rs)"
    using m by simp
  have "map (pushDetailed torrents []) (zip results [0..<length results]) =
      map (\<lambda>i. detailOutcome p (torrents ! i) (f i)) [0..<?n]"
    using f len by (intro nth_equalityI) simp_all
  also have "\<dots> = map2 (detailOutcome p) torrents rs"
    using lrs by (simp add: map2_conv_upt rs_def)
  finally have "ds = concat (map2 (detailOutcome p) torrents rs)"
    using ds by (simp add: foldl_pushDetailed)
  with lrs ev show ?thesis by blast
qed

lemma detailLoop_outcome:
  "detailLoop p svc scheds b tr chunks i acc = (ds, es) \<Longrightarrow>
     \<exists>rs. length rs = length (concat chunks)
        \<and> mset es = mset (map2 (\<lambda>t r. Fetched (DetailReq (torrent_hash t) b) r) (concat chunks) rs)
        \<and> ds = acc @ concat (map2 (detailOutcome p) (concat chunks) rs)"
proof (induction chunks arbitrary: tr i acc ds es)
  case Nil
  then show ?case by simp
next
  case (Cons chunk chunks)
  obtain ds1 es1 where b1: "processBatch p svc (scheds i) tr chunk b = (ds1, es1)"
    by (cases "processBatch p svc (scheds i) tr chunk b")
  obtain ds2 es2 where l2:
    "detailLoop p svc scheds b (tr @ es1) chunks (i + 1) (acc @ ds1) = (ds2, es2)"
    by (cases "detailLoop p svc scheds b (tr @ es1) chunks (i + 1) (acc @ ds1)")
  from Cons.prems b1 l2 have ds: "ds = ds2" and es: "es = es1 @ es2" by simp_all
  from processBatch_outcome [OF b1] obtain rs1 where
    r1: "length rs1 = length chunk"
      "mset es1 = mset (map2 (\<lambda>t r. Fetched (DetailReq (torrent_hash t) b) r) chunk rs1)"
      "ds1 = concat (map2 (detailOutcome p) chunk rs1)"
    by blast
  from Cons.IH [OF l2] obtain rs2 where
    r2: "length rs2 = length (concat chunks)"
      "mset es2 = mset (map2 (\<lambda>t r. Fetched (DetailReq (torrent_hash t) b) r) (concat chunks) rs2)"
      "ds2 = (acc @ ds1) @ concat (map2 (detailOutcome p) (concat chunks) rs2)"
    by blast
  have "length (rs1 @ rs2) = length (concat (chunk # chunks))" using r1 r2 by simp
  moreover have "mset es =
      mset (map2 (\<lambda>t r. Fetched (DetailReq (torrent_hash t) b) r) (concat (chunk # chunks)) (rs1 @ rs2))"
    using es r1 r2 by simp
  moreover have "ds = acc @ concat (map2 (detailOutcome p) (concat (chunk # chunks)) (rs1 @ rs2))"
    using ds r1 r2 by simp
  ultimately show ?case by blast
qed

lemma chunkLoop_concat:
  assumes "chunkLoop array chunkSize i chunks = Some res"
  shows "concat res = concat chunks @ drop i array"
proof (rule chunkLoop.raw_induct
        [where P = "\<lambda>array chunkSize i chunks res. concat res = concat chunks @ drop i array",
         OF _ assms], goal_cases)
  case (1 cl array chunkSize i chunks res)
  show ?case
  proof (cases "i < length array")
    case True
    with 1(2) have "cl array chunkSize (i + chunkSize) (chunks @ [take chunkSize (drop i array)]) = Some res"
      by simp
    from 1(1) [OF this] have "concat res =
        concat chunks @ (take chunkSize (drop i array) @ drop chunkSize (drop i array))"
      by (simp add: add.commute)
    then show ?thesis by (simp only: append_take_drop_id)
  next
    case False
    with 1(2) show ?thesis by simp
  qed
qed

lemma chunkLoop_returns:
  assumes "0 < chunkSize"
  shows "\<exists>res. chunkLoop array chunkSize i chunks = Some res"
proof (induction k \<equiv> "length array - i" arbitrary: i chunks rule: less_induct)
  case less
  show ?case
  proof (cases "i < length array")
    case True
    then have "length array - (i + chunkSize) < length array - i" using assms by simp
    from less.hyps [OF this, of "chunks @ [take chunkSize (drop i array)]"] True
    show ?thesis by (subst chunkLoop.simps) simp
  next
    case False
    then show ?thesis by (subst chunkLoop.simps) simp
  qed
qed

text \<open>
  The whole of \<^verbatim>\<open>getDetailedTorrentsConcurrently\<close>, when it returns: one fetch per torrent,
  and the outcomes of the torrents in their order.
\<close>

lemma getDetailedTorrentsConcurrently_outcome:
  assumes "getDetailedTorrentsConcurrently p svc scheds tr torrents b c = Some (ds, es)"
  shows "\<exists>rs. length rs = length torrents
           \<and> mset es = mset (map2 (\<lambda>t r. Fetched (DetailReq (torrent_hash t) b) r) torrents rs)
           \<and> ds = concat (map2 (detailOutcome p) torrents rs)"
proof -
  from assms obtain chunks where c: "chunkArray torrents c = Some chunks"
    and l: "detailLoop p svc scheds b tr chunks 0 [] = (ds, es)"
    by (auto simp: getDetailedTorrentsConcurrently_def split: option.splits)
  from chunkLoop_concat [OF c [unfolded chunkArray_def]] have "concat chunks = torrents" by simp
  with detailLoop_outcome [OF l] show ?thesis by simp
qed

lemma getDetailedTorrentsConcurrently_returns:
  assumes "0 < c"
  shows "\<exists>ds es. getDetailedTorrentsConcurrently p svc scheds tr torrents b c = Some (ds, es)"
proof -
  from chunkLoop_returns [OF assms] obtain chunks where "chunkArray torrents c = Some chunks"
    unfolding chunkArray_def by blast
  then show ?thesis
    by (cases "detailLoop p svc scheds b tr chunks 0 []")
       (simp add: getDetailedTorrentsConcurrently_def)
qed

lemma in_concat_map2:
  assumes "length xs = length ys"
  shows "x \<in> set (concat (map2 f xs ys)) \<longleftrightarrow> (\<exists>i<length xs. x \<in> set (f (xs ! i) (ys ! i)))"
proof
  assume "x \<in> set (concat (map2 f xs ys))"
  then obtain a b where "(a, b) \<in> set (zip xs ys)" "x \<in> set (f a b)" by auto
  then show "\<exists>i<length xs. x \<in> set (f (xs ! i) (ys ! i))"
    using assms by (auto simp: set_zip)
next
  assume "\<exists>i<length xs. x \<in> set (f (xs ! i) (ys ! i))"
  then obtain i where i: "i < length xs" "x \<in> set (f (xs ! i) (ys ! i))" by blast
  with assms have "(xs ! i, ys ! i) \<in> set (zip xs ys)" by (auto simp: set_zip)
  with i(2) show "x \<in> set (concat (map2 f xs ys))" by force
qed

lemma in_map2:
  assumes "length xs = length ys"
  shows "x \<in> set (map2 f xs ys) \<longleftrightarrow> (\<exists>i<length xs. x = f (xs ! i) (ys ! i))"
  using assms by (auto simp: set_zip image_iff)

text \<open>
  C9. Every torrent in the list that \<^verbatim>\<open>getDetailedTorrentsConcurrently\<close> returns has an
  empty file list and stands for a torrent whose detail fetch failed, or has a file whose
  status is not "available" up to case. So a torrent whose detail page was fetched and
  lists only available files is not in the list.
\<close>

theorem getDetailedTorrentsConcurrently_only_broken:
  assumes "getDetailedTorrentsConcurrently p svc scheds tr torrents b c = Some (ds, es)"
    and "d \<in> set ds"
  shows "(files d = [] \<and>
            (\<exists>t\<in>set torrents. \<exists>r. d = assumeBroken t \<and> failedFetch r
                \<and> Fetched (DetailReq (torrent_hash t) b) r \<in> set es))
         \<or> (\<exists>f\<in>set (files d). toLowerCase (file_status f) \<noteq> ''available'')"
proof -
  from getDetailedTorrentsConcurrently_outcome [OF assms(1)] obtain rs where
    len: "length rs = length torrents"
    and ev: "mset es = mset (map2 (\<lambda>t r. Fetched (DetailReq (torrent_hash t) b) r) torrents rs)"
    and ds: "ds = concat (map2 (detailOutcome p) torrents rs)"
    by blast
  from assms(2) ds in_concat_map2 [OF len [symmetric], of d "detailOutcome p"]
  obtain i where i: "i < length torrents"
    and d: "d \<in> set (detailOutcome p (torrents ! i) (rs ! i))"
    by blast
  have ses: "set es = set (map2 (\<lambda>t r. Fetched (DetailReq (torrent_hash t) b) r) torrents rs)"
    using ev by (rule mset_eq_setD)
  have e: "Fetched (DetailReq (torrent_hash (torrents ! i)) b) (rs ! i) \<in> set es"
    unfolding ses in_map2 [OF len [symmetric]] using i by blast
  show ?thesis
  proof (cases "failedFetch (rs ! i)")
    case True
    with d have "d = assumeBroken (torrents ! i)"
      by (cases "rs ! i") (simp_all add: detailOutcome_def)
    with True e i show ?thesis by (auto simp: assumeBroken_def)
  next
    case False
    then obtain st html where r: "rs ! i = Response True st html" by (cases "rs ! i") auto
    with d have "d = detailedOf p (torrents ! i) html" "\<not> allFilesAvailable d"
      by (auto simp: detailOutcome_def split: if_splits)
    then show ?thesis by (auto simp: allFilesAvailable_def list_all_iff)
  qed
qed

text \<open>
  C7. With a concurrency limit of at least 1 and torrents of distinct hashes,
  \<^verbatim>\<open>getDetailedTorrentsConcurrently\<close> returns, the detail page of every torrent is fetched,
  and for every torrent by the result of that fetch: if it failed (rejected, or a response
  that is not ok), the returned list has the torrent with an empty file list and its name,
  hash, size and date; if it succeeded and the page lists a file that is not available,
  the returned list has the torrent with the files of the page.
\<close>

theorem getDetailedTorrentsConcurrently_fetch_failure:
  assumes "1 \<le> c" and "distinct (map torrent_hash torrents)"
  shows "\<exists>ds es. getDetailedTorrentsConcurrently p svc scheds tr torrents b c = Some (ds, es)
     \<and> (\<forall>t\<in>set torrents.
          (\<exists>r. Fetched (DetailReq (torrent_hash t) b) r \<in> set es)
          \<and> (\<forall>r. Fetched (DetailReq (torrent_hash t) b) r \<in> set es \<longrightarrow>
                (failedFetch r \<longrightarrow>
                   \<lparr>torrent_name = torrent_name t, torrent_hash = torrent_hash t,
                    torrent_size = torrent_size t, torrent_date = torrent_date t, files = []\<rparr>
                     \<in> set ds)
                \<and> (\<forall>st html. r = Response True st html
                       \<and> \<not> allFilesAvailable (detailedOf p t html) \<longrightarrow>
                     detailedOf p t html \<in> set ds)))"
proof -
  have "0 < c" using assms(1) by simp
  from getDetailedTorrentsConcurrently_returns [OF this] obtain ds es where
    g: "getDetailedTorrentsConcurrently p svc scheds tr torrents b c = Some (ds, es)"
    by blast
  from getDetailedTorrentsConcurrently_outcome [OF g] obtain rs where
    len: "length rs = length torrents"
    and ev: "mset es = mset (map2 (\<lambda>t r. Fetched (DetailReq (torrent_hash t) b) r) torrents rs)"
    and ds: "ds = concat (map2 (detailOutcome p) torrents rs)"
    by blast
  have ses: "set es = set (map2 (\<lambda>t r. Fetched (DetailReq (torrent_hash t) b) r) torrents rs)"
    using ev by (rule mset_eq_setD)
  have es: "e \<in> set es \<longleftrightarrow>
      (\<exists>i<length torrents. e = Fetched (DetailReq (torrent_hash (torrents ! i)) b) (rs ! i))" for e
    unfolding ses by (rule in_map2 [OF len [symmetric]])
  have main: "(\<exists>r. Fetched (DetailReq (torrent_hash t) b) r \<in> set es)
          \<and> (\<forall>r. Fetched (DetailReq (torrent_hash t) b) r \<in> set es \<longrightarrow>
                (failedFetch r \<longrightarrow> assumeBroken t \<in> set ds)
                \<and> (\<forall>st html. r = Response True st html
                       \<and> \<not> allFilesAvailable (detailedOf p t html) \<longrightarrow>
                     detailedOf p t html \<in> set ds))" if t: "t \<in> set torrents" for t
  proof -
    from t obtain j where j: "j < length torrents" "torrents ! j = t"
      by (auto simp: in_set_conv_nth)
    have sub: "set (detailOutcome p t (rs ! j)) \<subseteq> set ds"
      unfolding ds using in_concat_map2 [OF len [symmetric], of _ "detailOutcome p"] j by blast
    have uniq: "r = rs ! j" if "Fetched (DetailReq (torrent_hash t) b) r \<in> set es" for r
    proof -
      from that es obtain i where i: "i < length torrents"
        "torrent_hash (torrents ! i) = torrent_hash t" "rs ! i = r"
        by auto
      from i(1,2) j have "map torrent_hash torrents ! i = map torrent_hash torrents ! j" by simp
      with assms(2) i(1) j(1) have "i = j"
        using nth_eq_iff_index_eq [of "map torrent_hash torrents" i j] by simp
      with i(3) show ?thesis by simp
    qed
    have f1: "Fetched (DetailReq (torrent_hash t) b) (rs ! j) \<in> set es" using es j by blast
    have f2: "assumeBroken t \<in> set ds" if "failedFetch (rs ! j)"
      using that sub by (cases "rs ! j") (auto simp: detailOutcome_def)
    have f3: "detailedOf p t html \<in> set ds"
      if "rs ! j = Response True st html" "\<not> allFilesAvailable (detailedOf p t html)" for st html
      using that sub by (auto simp: detailOutcome_def)
    show ?thesis
    proof (intro conjI allI impI)
      show "\<exists>r. Fetched (DetailReq (torrent_hash t) b) r \<in> set es" using f1 by (rule exI)
    next
      fix r assume "Fetched (DetailReq (torrent_hash t) b) r \<in> set es" "failedFetch r"
      with uniq f2 show "assumeBroken t \<in> set ds" by simp
    next
      fix r st html
      assume "Fetched (DetailReq (torrent_hash t) b) r \<in> set es"
        "r = Response True st html \<and> \<not> allFilesAvailable (detailedOf p t html)"
      with uniq [of r] f3 [of st html] show "detailedOf p t html \<in> set ds" by simp
    qed
  qed
  show ?thesis using g main by (intro exI conjI) (auto simp: assumeBroken_def)
qed

lemmas detail_eval = getDetailedTorrentsConcurrently_def chunkArray_def chunkLoop.simps processBatch_def
  Promise_allSettled_def getDetailedTorrent_def getTorrentDetailsPageHtml_def allFilesAvailable_def
  assumeBroken_def toLowerCase_def lowerChar_def Let_def

lemma example_details:
  "getDetailedTorrentsConcurrently exParse svcTwo exSched [] [exTorrent, exTorrentC, exTorrentB]
     ''http://zurg:9999'' 2 =
   Some ([\<lparr>torrent_name = ''Show'', torrent_hash = ''abc123'', torrent_size = ''1.4 GB'',
            torrent_date = ''2024-05-01'',
            files = [\<lparr>file_name = ''ep1.mkv'', file_size = ''700 MB'', file_status = ''Broken'',
                       file_id = ''7''\<rparr>]\<rparr>,
          \<lparr>torrent_name = ''Album'', torrent_hash = ''ghi789'', torrent_size = ''90 MB'',
            torrent_date = ''2024-07-02'', files = []\<rparr>,
          \<lparr>torrent_name = ''Movie'', torrent_hash = ''def456'', torrent_size = ''8 GB'',
            torrent_date = ''2024-06-11'',
            files = [\<lparr>file_name = ''movie.mkv'', file_size = ''8 GB'', file_status = ''Broken'',
                       file_id = ''3''\<rparr>]\<rparr>],
         [Fetched (DetailReq ''ghi789'' ''http://zurg:9999'') (Response False ''Not Found'' []),
          Fetched (DetailReq ''abc123'' ''http://zurg:9999'') (Response True ''OK'' ''broken''),
          Fetched (DetailReq ''def456'' ''http://zurg:9999'') (Response True ''OK'' ''brokenB'')])"
  by (simp add: detail_eval exParse_def svcTwo_def exSched_def exTorrent_def exTorrentB_def
      exTorrentC_def exFile_def exFileB_def)

theorem getDetailedTorrentsConcurrently_only_broken_witness:
  "(files (assumeBroken exTorrentC) = [] \<and>
      (\<exists>t\<in>set [exTorrent, exTorrentC, exTorrentB]. \<exists>r.
          assumeBroken exTorrentC = assumeBroken t \<and> failedFetch r
          \<and> Fetched (DetailReq (torrent_hash t) ''http://zurg:9999'') r
              \<in> set [Fetched (DetailReq ''ghi789'' ''http://zurg:9999'') (Response False ''Not Found'' []),
                      Fetched (DetailReq ''abc123'' ''http://zurg:9999'') (Response True ''OK'' ''broken''),
                      Fetched (DetailReq ''def456'' ''http://zurg:9999'') (Response True ''OK'' ''brokenB'')]))
   \<or> (\<exists>f\<in>set (files (assumeBroken exTorrentC)). toLowerCase (file_status f) \<noteq> ''available'')"
proof -
  have h: "assumeBroken exTorrentC \<in> set
      [\<lparr>torrent_name = ''Show'', torrent_hash = ''abc123'', torrent_size = ''1.4 GB'',
            torrent_date = ''2024-05-01'',
            files = [\<lparr>file_name = ''ep1.mkv'', file_size = ''700 MB'', file_status = ''Broken'',
                       file_id = ''7''\<rparr>]\<rparr>,
          \<lparr>torrent_name = ''Album'', torrent_hash = ''ghi789'', torrent_size = ''90 MB'',
            torrent_date = ''2024-07-02'', files = []\<rparr>,
          \<lparr>torrent_name = ''Movie'', torrent_hash = ''def456'', torrent_size = ''8 GB'',
            torrent_date = ''2024-06-11'',
            files = [\<lparr>file_name = ''movie.mkv'', file_size = ''8 GB'', file_status = ''Broken'',
                       file_id = ''3''\<rparr>]\<rparr>]"
    by (simp add: assumeBroken_def exTorrentC_def)
  show ?thesis by (rule getDetailedTorrentsConcurrently_only_broken [OF example_details h])
qed

theorem getDetailedTorrentsConcurrently_fetch_failure_witness:
  "\<exists>ds es. getDetailedTorrentsConcurrently exParse svcTwo exSched [] [exTorrent, exTorrentC, exTorrentB]
       ''http://zurg:9999'' 2 = Some (ds, es)
     \<and> Fetched (DetailReq ''ghi789'' ''http://zurg:9999'') (Response False ''Not Found'' []) \<in> set es
     \<and> \<lparr>torrent_name = ''Album'', torrent_hash = ''ghi789'', torrent_size = ''90 MB'',
         torrent_date = ''2024-07-02'', files = []\<rparr> \<in> set ds"
proof -
  have h1: "(1::nat) \<le> 2" by simp
  have h2: "distinct (map torrent_hash [exTorrent, exTorrentC, exTorrentB])"
    by (simp add: exTorrent_def exTorrentB_def exTorrentC_def)
  from getDetailedTorrentsConcurrently_fetch_failure [OF h1 h2, of exParse svcTwo exSched "[]"
      "''http://zurg:9999''"]
  obtain ds es where g: "getDetailedTorrentsConcurrently exParse svcTwo exSched []
       [exTorrent, exTorrentC, exTorrentB] ''http://zurg:9999'' 2 = Some (ds, es)"
    and a: "\<forall>r. Fetched (DetailReq (torrent_hash exTorrentC) ''http://zurg:9999'') r \<in> set es \<longrightarrow>
          (failedFetch r \<longrightarrow>
             \<lparr>torrent_name = torrent_name exTorrentC, torrent_hash = torrent_hash exTorrentC,
              torrent_size = torrent_size exTorrentC, torrent_date = torrent_date exTorrentC,
              files = []\<rparr> \<in> set ds)"
    by auto
  from g have e: "Fetched (DetailReq ''ghi789'' ''http://zurg:9999'') (Response False ''Not Found'' [])
      \<in> set es"
    by (auto simp: example_details)
  with a have "\<lparr>torrent_name = ''Album'', torrent_hash = ''ghi789'', torrent_size = ''90 MB'',
         torrent_date = ''2024-07-02'', files = []\<rparr> \<in> set ds"
    by (simp add: exTorrentC_def)
  with g e show ?thesis by blast
qed

section \<open>Running one instance\<close>

lemma foldl_summary:
  "foldl (\<lambda>acc result. acc(status result := acc (status result) + 1)) acc rs s =
     acc s + length (filter (\<lambda>r. status r = s) rs)"
  by (induction rs arbitrary: acc) simp_all

lemma summarize_count: "summarize rs s = length (filter (\<lambda>r. status r = s) rs)"
  unfolding summarize_def foldl_summary by simp

lemma summarize_positive:
  "(summarize rs failed > 0 \<or> summarize rs error > 0) \<longleftrightarrow>
     (\<exists>r\<in>set rs. status r = failed \<or> status r = error)"
  by (auto simp: summarize_count filter_empty_conv)

lemma repairFilesConcurrently_returns:
  assumes "0 < c"
  shows "\<exists>rs es. repairFilesConcurrently p svc scheds tr repairs b c m d = Some (rs, es)"
proof -
  have "list_all2 resultFor (take 0 repairs) []" by simp
  from repairLoop_returns [OF assms this] show ?thesis
    unfolding repairFilesConcurrently_def by blast
qed

text \<open>
  C4, as amended. For an instance with a concurrency limit of at least 1,
  \<^verbatim>\<open>runRepairForInstance\<close> ends, and it returns no value. If the fetch of the torrent list
  fails it throws that error. Otherwise it throws exactly when the repair results contain
  a \<^verbatim>\<open>failed\<close> or an \<^verbatim>\<open>error\<close> result; with no targets (no results) or all of them
  repaired it returns.
\<close>

theorem runRepairForInstance_outcome:
  assumes "1 \<le> inst_concurrencyLimit instance"
  shows "\<exists>outcome repairResults es.
     runRepairForInstance pl pf svc schedsD schedsR tr instance = Some (outcome, repairResults, es)
     \<and> (case fst (run svc (getTorrentList pl (inst_baseUrl instance)) tr) of
          Inl e \<Rightarrow> outcome = Inl e
        | Inr allTorrents \<Rightarrow>
            (isl outcome \<longleftrightarrow> (\<exists>r\<in>set repairResults. status r = failed \<or> status r = error)))"
proof -
  have c: "0 < inst_concurrencyLimit instance" using assms by simp
  obtain listed es0 where l: "run svc (getTorrentList pl (inst_baseUrl instance)) tr = (listed, es0)"
    by (cases "run svc (getTorrentList pl (inst_baseUrl instance)) tr")
  show ?thesis
  proof (cases listed)
    case (Inl e)
    with l show ?thesis by (simp add: runRepairForInstance_def)
  next
    case (Inr allTorrents)
    show ?thesis
    proof (cases "length allTorrents = 0")
      case True
      with l Inr show ?thesis by (simp add: runRepairForInstance_def)
    next
      case False
      from getDetailedTorrentsConcurrently_returns [OF c] obtain ds es1 where
        g: "getDetailedTorrentsConcurrently pf svc schedsD (tr @ es0) allTorrents
              (inst_baseUrl instance) (inst_concurrencyLimit instance) = Some (ds, es1)"
        by blast
      show ?thesis
      proof (cases "length (collectBrokenFiles ds) = 0")
        case True
        with l Inr False g show ?thesis by (simp add: runRepairForInstance_def)
      next
        case nonempty: False
        from repairFilesConcurrently_returns [OF c] obtain rs es2 where
          r: "repairFilesConcurrently pf svc schedsR (tr @ es0 @ es1) (collectBrokenFiles ds)
                (inst_baseUrl instance) (inst_concurrencyLimit instance)
                (inst_retryAttempts instance) (inst_retryDelay instance) = Some (rs, es2)"
          by blast
        show ?thesis
        proof (cases "summarize rs failed > 0 \<or> summarize rs error > 0")
          case True
          then have "\<exists>r\<in>set rs. status r = failed \<or> status r = error"
            using summarize_positive [of rs] by simp
          with l Inr False g nonempty r True show ?thesis
            by (simp add: runRepairForInstance_def Let_def)
        next
          case none: False
          then have "\<not> (\<exists>r\<in>set rs. status r = failed \<or> status r = error)"
            using summarize_positive [of rs] by simp
          with l Inr False g nonempty r none show ?thesis
            by (simp add: runRepairForInstance_def Let_def)
        qed
      qed
    qed
  qed
qed

lemmas repairMany_eval = repairFilesConcurrently_def repairLoop.simps resultFor_def
  collectBrokenFiles_def summarize_def runRepairForInstance_def getTorrentList_def
  getManagePageHtml_def

lemma example_run_two:
  "runRepairForInstance exParseList exParse svcTwo exSched exSched [] exInstance =
     Some (Inl (Error ''Some repairs failed for instance 'main'. 1 failed, 0 errors.''),
       [\<lparr>torrentHash = ''abc123'', fileId = ''7'', fileName = ''ep1.mkv'', status = repaired,
         message = ''File repaired successfully after 2 verification attempt(s)''\<rparr>,
        \<lparr>torrentHash = ''def456'', fileId = ''3'', fileName = ''movie.mkv'', status = failed,
         message = ''File repair failed - still not available after 3 verification attempts''\<rparr>],
       [Fetched (ListReq ''http://zurg:9999'') (Response True ''OK'' ''list''),
        Fetched (DetailReq ''def456'' ''http://zurg:9999'') (Response True ''OK'' ''brokenB''),
        Fetched (DetailReq ''abc123'' ''http://zurg:9999'') (Response True ''OK'' ''broken''),
        Fetched (DeleteReq ''def456'' ''3'' ''http://zurg:9999'') (Response True ''OK'' []),
        Fetched (DeleteReq ''abc123'' ''7'' ''http://zurg:9999'') (Response True ''OK'' []),
        Fetched (RestoreReq ''def456'' ''3'' ''http://zurg:9999'') (Response True ''OK'' []),
        Fetched (RestoreReq ''abc123'' ''7'' ''http://zurg:9999'') (Response True ''OK'' []),
        Slept 2000, Slept 2000,
        Fetched (DetailReq ''abc123'' ''http://zurg:9999'') (Response True ''OK'' ''broken''),
        Slept 2000,
        Fetched (DetailReq ''abc123'' ''http://zurg:9999'') (Response True ''OK'' ''fixed''),
        Fetched (DetailReq ''def456'' ''http://zurg:9999'') (Response True ''OK'' ''brokenB''),
        Slept 2000,
        Fetched (DetailReq ''def456'' ''http://zurg:9999'') (Response True ''OK'' ''brokenB''),
        Slept 2000,
        Fetched (DetailReq ''def456'' ''http://zurg:9999'') (Response True ''OK'' ''brokenB'')])"
  by (simp add: repairMany_eval detail_eval repairFile_eval exParse_def exParseList_def svcTwo_def
      exSched_def exTorrent_def exTorrentB_def exFile_def exFileB_def exInstance_def)

theorem runRepairForInstance_outcome_witness:
  "\<exists>outcome repairResults es.
     runRepairForInstance exParseList exParse svcTwo exSched exSched [] exInstance
       = Some (outcome, repairResults, es)
     \<and> isl outcome
     \<and> map status repairResults = [repaired, failed]"
proof -
  have h: "1 \<le> inst_concurrencyLimit exInstance" by (simp add: exInstance_def)
  have l: "fst (run svcTwo (getTorrentList exParseList (inst_baseUrl exInstance)) []) =
      Inr [exTorrent, exTorrentB]"
    by (simp add: getTorrentList_def getManagePageHtml_def svcTwo_def exParseList_def
        exInstance_def Let_def)
  from runRepairForInstance_outcome [OF h, of exParseList exParse svcTwo exSched exSched "[]"]
  obtain outcome repairResults es where
    r: "runRepairForInstance exParseList exParse svcTwo exSched exSched [] exInstance
       = Some (outcome, repairResults, es)"
    and t: "isl outcome \<longleftrightarrow> (\<exists>r\<in>set repairResults. status r = failed \<or> status r = error)"
    unfolding l by auto
  from r have rr: "map status repairResults = [repaired, failed]"
    by (auto simp: example_run_two)
  then have "failed \<in> set (map status repairResults)" by simp
  then obtain x where "x \<in> set repairResults" "status x = failed" by auto
  then have "\<exists>r\<in>set repairResults. status r = failed \<or> status r = error" by blast
  with t have "isl outcome" by simp
  with r rr show ?thesis by (intro exI conjI)
qed

text \<open>
  C4 as stated: the function returns a RunSummary, and throws exactly when the repair
  results contain a failed or error result. When the service refuses the fetch of the
  torrent list, the function throws although there is no repair result at all: the
  summary counts no \<^verbatim>\<open>failed\<close> and no \<^verbatim>\<open>error\<close>.
\<close>

theorem runRepairForInstance_list_failure:
  "runRepairForInstance exParseList exParse svcDown exSched exSched [] exInstance =
     Some (Inl (Error ''connect ECONNREFUSED''), [],
           [Fetched (ListReq ''http://zurg:9999'') (Rejected ''connect ECONNREFUSED'')])
   \<and> summarize [] failed + summarize [] error = 0"
  by (simp add: runRepairForInstance_def getTorrentList_def getManagePageHtml_def svcDown_def
      exInstance_def summarize_def Let_def)

section \<open>The scheduler\<close>

lemma runEvents_snoc: "runEvents (evs @ [e]) = step (runEvents evs) e"
  by (simp add: runEvents_def)

text \<open>The runs in progress are exactly the instances marked as running, each once.\<close>

lemma step_inProgress:
  assumes "\<And>m. count (inProgress s) m = (if m \<in> runningJobs (scheduler s) then 1 else 0)"
  shows "count (inProgress (step s e)) n =
     (if n \<in> runningJobs (scheduler (step s e)) then 1 else 0)"
proof (cases e)
  case (Trigger inst)
  show ?thesis
  proof (cases "inst_name inst \<in> runningJobs (scheduler s)")
    case True
    with Trigger assms [of n] show ?thesis by (simp add: executeInstance_begin_def)
  next
    case False
    with Trigger assms [of n] show ?thesis by (auto simp: executeInstance_begin_def)
  qed
next
  case (Completed inst outcome)
  show ?thesis
  proof (cases "inst_name inst \<in># inProgress s")
    case True
    with Completed assms [of n] assms [of "inst_name inst"] show ?thesis
      by (cases outcome) (auto simp: executeInstance_end_def)
  next
    case False
    with Completed assms [of n] show ?thesis by simp
  qed
qed

lemma inProgress_running:
  "count (inProgress (runEvents evs)) n =
     (if n \<in> runningJobs (scheduler (runEvents evs)) then 1 else 0)"
proof (induction evs arbitrary: n rule: rev_induct)
  case Nil
  then show ?case by (simp add: runEvents_def initial_def)
next
  case (snoc e evs)
  show ?case unfolding runEvents_snoc by (rule step_inProgress) (rule snoc.IH)
qed

text \<open>
  C8. If the running flag of an instance is set, \<open>executeInstance\<close> returns at once: it
  does not invoke the run and leaves the scheduler as it is, so in every state the event
  loop can reach a trigger for a running instance adds no invocation. Otherwise it sets
  the flag and invokes the run. When the run has completed, with success or with an
  error, the flag is cleared. So, whatever triggers and completions occur, no instance
  ever has two runs in progress.
\<close>

theorem executeInstance_exclusive:
  "(inst_name instance \<in> runningJobs this \<longrightarrow>
      executeInstance_begin instance this = (False, this))
   \<and> (inst_name instance \<notin> runningJobs this \<longrightarrow>
      executeInstance_begin instance this =
        (True, this\<lparr>runningJobs := insert (inst_name instance) (runningJobs this)\<rparr>))
   \<and> inst_name instance \<notin> runningJobs (executeInstance_end instance outcome this)
   \<and> (inst_name instance \<in> runningJobs (scheduler (runEvents evs)) \<longrightarrow>
      step (runEvents evs) (Trigger instance) = runEvents evs)
   \<and> count (inProgress (runEvents evs)) n \<le> 1"
proof (intro conjI impI)
  show "count (inProgress (runEvents evs)) n \<le> 1"
    by (simp add: inProgress_running)
next
  show "inst_name instance \<notin> runningJobs (executeInstance_end instance outcome this)"
    by (cases outcome) (simp_all add: executeInstance_end_def)
qed (simp_all add: executeInstance_begin_def)

theorem executeInstance_exclusive_witness:
  "executeInstance_begin exInstance \<lparr>jobs = {''main''}, runningJobs = {''main''}\<rparr> =
     (False, \<lparr>jobs = {''main''}, runningJobs = {''main''}\<rparr>)
   \<and> executeInstance_begin exInstance \<lparr>jobs = {''main''}, runningJobs = {}\<rparr> =
     (True, \<lparr>jobs = {''main''}, runningJobs = {''main''}\<rparr>)
   \<and> ''main'' \<notin> runningJobs (executeInstance_end exInstance (Inl (Error ''boom''))
        \<lparr>jobs = {''main''}, runningJobs = {''main''}\<rparr>)
   \<and> step (runEvents [Trigger exInstance]) (Trigger exInstance) = runEvents [Trigger exInstance]
   \<and> invocations (runEvents [Trigger exInstance, Trigger exInstance]) = 1
   \<and> count (inProgress (runEvents [Trigger exInstance, Trigger exInstance])) ''main'' \<le> 1"
proof -
  have n: "inst_name exInstance = ''main''" by (simp add: exInstance_def)
  have r: "inst_name exInstance \<in> runningJobs (scheduler (runEvents [Trigger exInstance]))"
    by (simp add: runEvents_def initial_def executeInstance_begin_def exInstance_def)
  have i: "invocations (runEvents [Trigger exInstance, Trigger exInstance]) = 1"
    by (simp add: runEvents_def initial_def executeInstance_begin_def exInstance_def)
  from executeInstance_exclusive
      [of exInstance "\<lparr>jobs = {''main''}, runningJobs = {''main''}\<rparr>" "Inl (Error ''boom'')"
          "[Trigger exInstance]" "''main''"]
    executeInstance_exclusive
      [of exInstance "\<lparr>jobs = {''main''}, runningJobs = {}\<rparr>" "Inl (Error ''boom'')"
          "[Trigger exInstance, Trigger exInstance]" "''main''"]
    r i
  show ?thesis by (simp add: n)
qed

end
